theory Spec2Isabelle
  imports Complex_Main "HOL-Library.AList" "HOL-Library.Sublist"
begin

section \<open>Values and errors\<close>

text \<open>
  The client of \<^verbatim>\<open>comfyapi.py\<close> handles the values that \<^verbatim>\<open>json.loads\<close> and
  \<^verbatim>\<open>Response.json()\<close> produce. A Python dict keeps its keys in insertion order and has no
  duplicate key: it is an association list, read with \<open>map_of\<close> and written with
  \<open>AList.update\<close> (an existing key keeps its place, a new key goes to the end, as in
  Python). Numbers carry their value; no function of the program computes with them,
  only their truth value is read. Strings are lists of characters.
\<close>

datatype json =
    JNull
  | JBool bool
  | JNum real
  | JStr string
  | JList "json list"
  | JObj "(string \<times> json) list"

text \<open>
  The reasons of the three \<^verbatim>\<open>ValueError\<close>s that \<^verbatim>\<open>_pick_last_image\<close> raises itself, of
  the one that \<^verbatim>\<open>int()\<close> raises on a string that is no integer literal, and of the two
  that \<^verbatim>\<open>time.sleep\<close> raises on a negative length and on NaN.
\<close>

datatype value_error =
    NoOutputs json
  | NoImagesInOutputs
  | FinalNodeWithoutImages
  | InvalidLiteral string
  | SleepNegative
  | SleepNaN

text \<open>
  What \<^verbatim>\<open>requests\<close> raises when no response arrives, or when the connection breaks while
  a streamed body is read: classes of the library, all of them a \<^verbatim>\<open>RequestException\<close>
  and none of them Python's built-in \<^verbatim>\<open>TimeoutError\<close>.
\<close>

datatype request_error =
    ConnectionError
  | ReadTimeout
  | ChunkedEncodingError

text \<open>
  Exceptions are values. The spec's names: ParseError is \<open>JSONDecodeError\<close>,
  MissingNodeError is \<open>KeyError\<close>, TransportError is \<open>HTTPError\<close> or \<open>RequestException\<close>,
  MalformedResponseError is \<open>KeyError\<close>, ValidationError is \<open>ValueError\<close>.
\<close>

datatype error =
    JSONDecodeError
  | KeyError string
  | TypeError
  | AttributeError
  | IndexError
  | ValueError value_error
  | OverflowError
  | TimeoutError
  | RequestException request_error
  | HTTPError nat
  | FileNotFoundError
  | FileExistsError
  | NotADirectoryError
  | IsADirectoryError

definition bind :: "error + 'a \<Rightarrow> ('a \<Rightarrow> error + 'b) \<Rightarrow> error + 'b" where
  "bind m f = (case m of Inl e \<Rightarrow> Inl e | Inr x \<Rightarrow> f x)"

section \<open>The Python operations the program uses\<close>

text \<open>\<^verbatim>\<open>bool(x)\<close>, as \<^verbatim>\<open>not x\<close> and \<^verbatim>\<open>x or y\<close> read it.\<close>

fun truthy :: "json \<Rightarrow> bool" where
  "truthy JNull = False"
| "truthy (JBool b) = b"
| "truthy (JNum n) = (n \<noteq> 0)"
| "truthy (JStr s) = (s \<noteq> [])"
| "truthy (JList xs) = (xs \<noteq> [])"
| "truthy (JObj kv) = (kv \<noteq> [])"

text \<open>\<^verbatim>\<open>s in t\<close> on two strings: \<open>s\<close> occurs in \<open>t\<close> as a contiguous run.\<close>

fun substring :: "string \<Rightarrow> string \<Rightarrow> bool" where
  "substring s [] = (s = [])"
| "substring s (c # cs) = (prefix s (c # cs) \<or> substring s cs)"

text \<open>
  \<^verbatim>\<open>key in x\<close> for a string \<open>key\<close>: a dict is asked for the key, a list for an element
  equal to the string, a string for the substring; None, a bool and a number are not
  iterable.
\<close>

fun py_contains :: "json \<Rightarrow> string \<Rightarrow> error + bool" where
  "py_contains (JObj kv) key = Inr (map_of kv key \<noteq> None)"
| "py_contains (JList xs) key = Inr (JStr key \<in> set xs)"
| "py_contains (JStr s) key = Inr (substring key s)"
| "py_contains _ key = Inl TypeError"

text \<open>\<^verbatim>\<open>x[key]\<close> for a string \<open>key\<close>: only a dict can be subscripted with a string.\<close>

fun py_getitem :: "json \<Rightarrow> string \<Rightarrow> error + json" where
  "py_getitem (JObj kv) key =
     (case map_of kv key of None \<Rightarrow> Inl (KeyError key) | Some v \<Rightarrow> Inr v)"
| "py_getitem _ key = Inl TypeError"

text \<open>\<^verbatim>\<open>x[key] = v\<close> for a string \<open>key\<close>; the updated container is returned.\<close>

fun py_setitem :: "json \<Rightarrow> string \<Rightarrow> json \<Rightarrow> error + json" where
  "py_setitem (JObj kv) key v = Inr (JObj (AList.update key v kv))"
| "py_setitem _ key v = Inl TypeError"

text \<open>\<^verbatim>\<open>x.get(key, default)\<close>: a method of dicts only.\<close>

fun py_get :: "json \<Rightarrow> string \<Rightarrow> json \<Rightarrow> error + json" where
  "py_get (JObj kv) key d = Inr (case map_of kv key of None \<Rightarrow> d | Some v \<Rightarrow> v)"
| "py_get _ key d = Inl AttributeError"

text \<open>\<^verbatim>\<open>x.keys()\<close>, in insertion order: a method of dicts only.\<close>

fun py_keys :: "json \<Rightarrow> error + string list" where
  "py_keys (JObj kv) = Inr (map fst kv)"
| "py_keys _ = Inl AttributeError"

text \<open>
  \<^verbatim>\<open>x[-1]\<close>: the last element of a list, the last character of a string; a dict is asked
  for the key \<open>-1\<close>, which a dict decoded from JSON never has.
\<close>

fun py_last :: "json \<Rightarrow> error + json" where
  "py_last (JList xs) = (if xs = [] then Inl IndexError else Inr (last xs))"
| "py_last (JStr s) = (if s = [] then Inl IndexError else Inr (JStr [last s]))"
| "py_last (JObj kv) = Inl (KeyError ''-1'')"
| "py_last _ = Inl TypeError"

text \<open>\<^verbatim>\<open>len(x)\<close>.\<close>

fun py_len :: "json \<Rightarrow> error + nat" where
  "py_len (JObj kv) = Inr (length kv)"
| "py_len (JList xs) = Inr (length xs)"
| "py_len (JStr s) = Inr (length s)"
| "py_len _ = Inl TypeError"

subsection \<open>\<^verbatim>\<open>int(s)\<close> on a string\<close>

text \<open>
  \<^verbatim>\<open>int\<close> strips white space (tab, line feed, vertical tab, form feed, carriage return
  and space) on both sides, reads an optional sign and then decimal
  digits, where single underscores may stand between two digits; anything else is a
  \<^verbatim>\<open>ValueError\<close>. Leading zeros are accepted. Only the ASCII digits and white space
  are modelled, and the interpreter's configurable bound on the number of digits is not.
\<close>

definition is_digit :: "char \<Rightarrow> bool" where
  "is_digit c = (48 \<le> (of_char c :: nat) \<and> (of_char c :: nat) \<le> 57)"

definition digit_val :: "char \<Rightarrow> nat" where
  "digit_val c = (of_char c :: nat) - 48"

definition is_space :: "char \<Rightarrow> bool" where
  "is_space c = ((of_char c :: nat) \<in> {9, 10, 11, 12, 13, 32})"

definition strip :: "string \<Rightarrow> string" where
  "strip s = rev (dropWhile is_space (rev (dropWhile is_space s)))"

fun parse_digits :: "nat \<Rightarrow> string \<Rightarrow> nat option" where
  "parse_digits acc [] = Some acc"
| "parse_digits acc [c] =
     (if is_digit c then Some (10 * acc + digit_val c) else None)"
| "parse_digits acc (c # d # cs) =
     (if is_digit c then parse_digits (10 * acc + digit_val c) (d # cs)
      else if c = CHR ''_'' \<and> is_digit d then parse_digits acc (d # cs)
      else None)"

definition parse_nat :: "string \<Rightarrow> nat option" where
  "parse_nat s =
     (case s of [] \<Rightarrow> None
      | c # cs \<Rightarrow> if is_digit c then parse_digits 0 (c # cs) else None)"

definition py_int :: "string \<Rightarrow> error + int" where
  "py_int s =
     (let t = strip s;
          r = (case t of
                 [] \<Rightarrow> None
               | c # cs \<Rightarrow>
                   if c = CHR ''-'' then map_option (\<lambda>n. - int n) (parse_nat cs)
                   else if c = CHR ''+'' then map_option int (parse_nat cs)
                   else map_option int (parse_nat t))
      in case r of None \<Rightarrow> Inl (ValueError (InvalidLiteral s)) | Some n \<Rightarrow> Inr n)"

section \<open>The result selector\<close>

text \<open>
  \<^verbatim>\<open>sorted(keys, key=int)\<close> computes \<^verbatim>\<open>int(k)\<close> for every key first, so the first key
  that is no integer literal raises; the sort is stable, as \<open>sort_key\<close> is.
\<close>

fun int_keys :: "string list \<Rightarrow> error + (int \<times> string) list" where
  "int_keys [] = Inr []"
| "int_keys (k # ks) =
     bind (py_int k) (\<lambda>n. bind (int_keys ks) (\<lambda>r. Inr ((n, k) # r)))"

definition sorted_by_int :: "string list \<Rightarrow> error + string list" where
  "sorted_by_int ks = bind (int_keys ks) (\<lambda>r. Inr (map snd (sort_key fst r)))"

text \<open>Line 74: \<^verbatim>\<open>last_node = sorted(outputs.keys(), key=int)[-1]\<close>.\<close>

definition last_node :: "json \<Rightarrow> error + string" where
  "last_node outputs =
     bind (py_keys outputs) (\<lambda>ks.
     bind (sorted_by_int ks) (\<lambda>sorted_keys.
       if sorted_keys = [] then Inl IndexError else Inr (last sorted_keys)))"

text \<open>
  Lines 75 to 80, from the node's object on: its \<^verbatim>\<open>"images"\<close>, the emptiness check, the last
  image, its \<^verbatim>\<open>"filename"\<close> and its \<^verbatim>\<open>"subfolder"\<close> (\<^verbatim>\<open>""\<close> when absent).
\<close>

definition pick_from_node :: "json \<Rightarrow> error + json \<times> json" where
  "pick_from_node node =
     bind (py_getitem node ''images'') (\<lambda>images.
       if \<not> truthy images then Inl (ValueError FinalNodeWithoutImages)
       else
         bind (py_last images) (\<lambda>last_image.
         bind (py_getitem last_image ''filename'') (\<lambda>filename.
         bind (py_get last_image ''subfolder'' (JStr [])) (\<lambda>subfolder.
           Inr (filename, subfolder)))))"

definition pick_last_image :: "json \<Rightarrow> error + json \<times> json" where
  "pick_last_image hist =
     bind (py_contains hist ''outputs'') (\<lambda>present.
       if \<not> present then Inl (ValueError (NoOutputs hist))
       else
         bind (py_getitem hist ''outputs'') (\<lambda>outputs.
           if \<not> truthy outputs then Inl (ValueError NoImagesInOutputs)
           else
             bind (last_node outputs) (\<lambda>node_id.
             bind (py_getitem outputs node_id) pick_from_node)))"

text \<open>
  The inputs of the first claim: a decimal-integer string is a non-empty string of
  decimal digits, and \<open>dec_value\<close> is the number it denotes.
\<close>

definition decimal_string :: "string \<Rightarrow> bool" where
  "decimal_string s = (s \<noteq> [] \<and> list_all is_digit s)"

definition dec_value :: "string \<Rightarrow> nat" where
  "dec_value s = foldl (\<lambda>a c. 10 * a + digit_val c) 0 s"

section \<open>HTTP, the clock and the trace of effects\<close>

text \<open>
  A call of \<^verbatim>\<open>requests.get\<close> or \<^verbatim>\<open>requests.post\<close> either raises (\<open>Inl\<close>: no
  connection, the request's own timeout) or gives a response: its status code, what
  \<^verbatim>\<open>r.json()\<close> decodes from the body (\<open>None\<close> when the body is not JSON) and the bytes of
  the body. A response asked for with \<^verbatim>\<open>stream=True\<close> is handed over before its body has
  been read: \<open>stream_error\<close> is \<open>None\<close> when the whole body arrives, and otherwise the
  exception raised once the bytes of \<open>content\<close>, those that did arrive, have been
  delivered. Only the download of the image streams its response.
\<close>

record response =
  status_code :: nat
  body_json :: "json option"
  content :: string
  stream_error :: "request_error option"

type_synonym reply = "request_error + response"

definition received :: "reply \<Rightarrow> error + response" where
  "received rep = (case rep of Inl e \<Rightarrow> Inl (RequestException e) | Inr r \<Rightarrow> Inr r)"

text \<open>\<^verbatim>\<open>r.raise_for_status()\<close> raises on the client and server error codes, 400 to 599.\<close>

definition raise_for_status :: "response \<Rightarrow> error + unit" where
  "raise_for_status r =
     (if 400 \<le> status_code r \<and> status_code r < 600 then Inl (HTTPError (status_code r))
      else Inr ())"

definition response_json :: "response \<Rightarrow> error + json" where
  "response_json r = (case body_json r of None \<Rightarrow> Inl JSONDecodeError | Some j \<Rightarrow> Inr j)"

text \<open>
  A Python float: a finite number, an infinity or NaN. Of a finite float only its value
  is kept.
\<close>

datatype pyfloat =
    Finite real
  | PlusInfinity
  | MinusInfinity
  | NaN

text \<open>
  \<^verbatim>\<open>time.sleep(secs)\<close> converts the length to whole nanoseconds in a signed 64-bit
  integer, then refuses a negative one: NaN is a \<^verbatim>\<open>ValueError\<close>, a length outside the
  64-bit range (some 292 years, and the infinities) an \<^verbatim>\<open>OverflowError\<close>, any other
  negative length a \<^verbatim>\<open>ValueError\<close>. The product with \<open>10\<^sup>9\<close> is taken exactly here,
  where the interpreter rounds it.
\<close>

definition time_sleep :: "pyfloat \<Rightarrow> error + unit" where
  "time_sleep secs =
     (case secs of
        NaN \<Rightarrow> Inl (ValueError SleepNaN)
      | PlusInfinity \<Rightarrow> Inl OverflowError
      | MinusInfinity \<Rightarrow> Inl OverflowError
      | Finite x \<Rightarrow>
          if x * 10 ^ 9 < - (2 ^ 63) \<or> 2 ^ 63 \<le> x * 10 ^ 9 then Inl OverflowError
          else if x < 0 then Inl (ValueError SleepNegative)
          else Inr ())"

text \<open>
  What the program does to the world outside the file system, in order: the requests it
  sends and the pauses it takes. The \<^verbatim>\<open>print\<close> calls are left out.
\<close>

datatype event =
    HttpPost string json
  | HttpGet string
  | Sleep pyfloat

text \<open>\<^verbatim>\<open>host.rstrip('/')\<close>.\<close>

definition rstrip :: "char \<Rightarrow> string \<Rightarrow> string" where
  "rstrip c s = rev (dropWhile (\<lambda>x. x = c) (rev s))"

text \<open>
  How a run ends: with a value, with an exception, still in the polling loop when the
  observed history responses are used up, or at a place where a value decoded from a
  server reply would enter a parameter annotated \<^verbatim>\<open>str\<close> without being a string (the
  source passes it on unchecked; the model says nothing about such runs).
\<close>

datatype 'a outcome =
    Returned 'a
  | Raised error
  | StillPolling
  | IllTyped

section \<open>The job submitter\<close>

text \<open>Lines 30 to 33: the body that is sent. \<^verbatim>\<open>and\<close> evaluates \<^verbatim>\<open>len\<close> only after \<^verbatim>\<open>in\<close> held.\<close>

definition payload_of :: "json \<Rightarrow> error + json" where
  "payload_of workflow =
     bind (py_contains workflow ''prompt'') (\<lambda>has_prompt.
       if has_prompt then
         bind (py_len workflow) (\<lambda>n.
           if n = 1 then Inr workflow else Inr (JObj [(''prompt'', workflow)]))
       else Inr (JObj [(''prompt'', workflow)]))"

text \<open>
  \<^verbatim>\<open>_post_prompt\<close>: the result and the requests made. \<open>post_reply\<close> is what the server
  answers to the POST.
\<close>

definition post_prompt :: "json \<Rightarrow> string \<Rightarrow> reply \<Rightarrow> (error + json) \<times> event list" where
  "post_prompt workflow host post_reply =
     (let url = rstrip CHR ''/'' host @ ''/prompt'' in
      case payload_of workflow of
        Inl e \<Rightarrow> (Inl e, [])
      | Inr payload \<Rightarrow>
          (bind (received post_reply) (\<lambda>r.
           bind (raise_for_status r) (\<lambda>_.
           bind (response_json r) (\<lambda>data.
             py_getitem data ''prompt_id''))),
           [HttpPost url payload]))"

section \<open>The completion poller\<close>

text \<open>
  Each turn of the loop of \<^verbatim>\<open>_wait_until_done\<close> sends one GET and, when the job is not
  ready, reads the clock once. An observation is the reply to that GET together with the
  reading of \<^verbatim>\<open>time.time()\<close> at that turn's timeout check; \<open>t0\<close> is the reading taken
  before the loop. A clock reading is a finite float, kept as its value. The elapsed time
  is the float that \<^verbatim>\<open>time.time() - t0\<close> evaluates to: \<open>fsub\<close>, the subtraction of floats,
  is a parameter (it rounds the difference to a float, and is exact when the two readings
  lie within a factor of two of each other, as readings of one clock a few minutes apart
  do). Python compares that float with the integer \<open>timeout\<close> exactly. The loop ends with
  the observations: \<open>StillPolling\<close>.
\<close>

text \<open>\<^verbatim>\<open>not hist or prompt_id not in hist\<close>, where \<^verbatim>\<open>or\<close> asks the second only if the first fails.\<close>

definition job_absent :: "json \<Rightarrow> string \<Rightarrow> error + bool" where
  "job_absent hist prompt_id =
     (if \<not> truthy hist then Inr True
      else bind (py_contains hist prompt_id) (\<lambda>present. Inr (\<not> present)))"

text \<open>\<^verbatim>\<open>data.get("status", {}).get("completed", False)\<close>.\<close>

definition completed_flag :: "json \<Rightarrow> error + json" where
  "completed_flag data =
     bind (py_get data ''status'' (JObj [])) (\<lambda>status. py_get status ''completed'' (JBool False))"

text \<open>Lines 46 to 48: the GET, the status check and the decoding of the body.\<close>

definition fetched :: "reply \<Rightarrow> error + json" where
  "fetched rep = bind (received rep) (\<lambda>r. bind (raise_for_status r) (\<lambda>_. response_json r))"

fun wait_loop ::
  "(real \<Rightarrow> real \<Rightarrow> real) \<Rightarrow> string \<Rightarrow> string \<Rightarrow> pyfloat \<Rightarrow> int \<Rightarrow> real \<Rightarrow> (reply \<times> real) list
   \<Rightarrow> json outcome \<times> event list"
where
  "wait_loop fsub prompt_id url poll timeout t0 [] = (StillPolling, [])"
| "wait_loop fsub prompt_id url poll timeout t0 ((get_reply, now) # later) =
     (case fetched get_reply of
        Inl e \<Rightarrow> (Raised e, [HttpGet url])
      | Inr hist \<Rightarrow>
          (case job_absent hist prompt_id of
             Inl e \<Rightarrow> (Raised e, [HttpGet url])
           | Inr True \<Rightarrow>
               if fsub now t0 > real_of_int timeout then (Raised TimeoutError, [HttpGet url])
               else
                 (case time_sleep poll of
                    Inl e \<Rightarrow> (Raised e, [HttpGet url])
                  | Inr _ \<Rightarrow>
                      (let (res, tr) = wait_loop fsub prompt_id url poll timeout t0 later
                       in (res, HttpGet url # Sleep poll # tr)))
           | Inr False \<Rightarrow>
               (case bind (py_getitem hist prompt_id) (\<lambda>data.
                       bind (completed_flag data) (\<lambda>flag. Inr (data, flag))) of
                  Inl e \<Rightarrow> (Raised e, [HttpGet url])
                | Inr (data, flag) \<Rightarrow>
                    if \<not> truthy flag then
                      if fsub now t0 > real_of_int timeout then (Raised TimeoutError, [HttpGet url])
                      else
                        (case time_sleep poll of
                           Inl e \<Rightarrow> (Raised e, [HttpGet url])
                         | Inr _ \<Rightarrow>
                             (let (res, tr) = wait_loop fsub prompt_id url poll timeout t0 later
                              in (res, HttpGet url # Sleep poll # tr)))
                    else (Returned data, [HttpGet url]))))"

definition wait_until_done ::
  "(real \<Rightarrow> real \<Rightarrow> real) \<Rightarrow> string \<Rightarrow> string \<Rightarrow> pyfloat \<Rightarrow> int \<Rightarrow> real \<Rightarrow> (reply \<times> real) list
   \<Rightarrow> json outcome \<times> event list"
where
  "wait_until_done fsub prompt_id host poll timeout t0 observations =
     wait_loop fsub prompt_id (rstrip CHR ''/'' host @ ''/history/'' @ prompt_id)
       poll timeout t0 observations"

text \<open>
  A reply after which the loop goes on or times out: it was fetched and decoded, and the
  job is absent from it or its \<^verbatim>\<open>completed\<close> flag is not true (lines 51 and 58).
\<close>

definition waiting :: "string \<Rightarrow> reply \<Rightarrow> bool" where
  "waiting prompt_id rep =
     (case fetched rep of
        Inl e \<Rightarrow> False
      | Inr hist \<Rightarrow>
          (case job_absent hist prompt_id of
             Inl e \<Rightarrow> False
           | Inr True \<Rightarrow> True
           | Inr False \<Rightarrow>
               (case bind (py_getitem hist prompt_id) completed_flag of
                  Inl e \<Rightarrow> False
                | Inr flag \<Rightarrow> \<not> truthy flag)))"

section \<open>Paths and the file system\<close>

text \<open>
  A \<^verbatim>\<open>pathlib.Path\<close> on a POSIX system: its root (\<^verbatim>\<open>""\<close>, \<^verbatim>\<open>"/"\<close> or \<^verbatim>\<open>"//"\<close>) and its
  components. Parsing a string splits it at the slashes and drops the empty components
  and the components \<^verbatim>\<open>"."\<close>.
\<close>

record path =
  root :: string
  parts :: "string list"

text \<open>\<^verbatim>\<open>s.split(c)\<close>: the pieces between the occurrences of \<open>c\<close>; never an empty list.\<close>

fun split_on :: "char \<Rightarrow> string \<Rightarrow> string list" where
  "split_on c [] = [[]]"
| "split_on c (x # xs) =
     (if x = c then [] # split_on c xs
      else (case split_on c xs of [] \<Rightarrow> [[x]] | w # ws \<Rightarrow> (x # w) # ws))"

definition root_of :: "string \<Rightarrow> string" where
  "root_of s =
     (if take 1 s \<noteq> ''/'' then []
      else if take 1 (drop 1 s) \<noteq> ''/'' \<or> take 1 (drop 2 s) = ''/'' then ''/''
      else ''//'')"

definition Path :: "string \<Rightarrow> path" where
  "Path s =
     \<lparr>root = root_of s,
      parts = filter (\<lambda>x. x \<noteq> [] \<and> x \<noteq> ''.'') (split_on CHR ''/'' s)\<rparr>"

text \<open>\<^verbatim>\<open>p.name\<close>: the last component, \<^verbatim>\<open>""\<close> when there is none.\<close>

definition path_name :: "path \<Rightarrow> string" where
  "path_name p = (if parts p = [] then [] else last (parts p))"

text \<open>\<^verbatim>\<open>s.rfind(c)\<close>: the index of the last occurrence of \<open>c\<close>, \<open>None\<close> for Python's \<open>-1\<close>.\<close>

fun rfind :: "char \<Rightarrow> string \<Rightarrow> nat option" where
  "rfind c [] = None"
| "rfind c (x # xs) =
     (case rfind c xs of
        Some i \<Rightarrow> Some (Suc i)
      | None \<Rightarrow> if x = c then Some 0 else None)"

text \<open>
  \<^verbatim>\<open>p.suffix\<close>: the name from its last dot on, when that dot is neither the first nor the
  last character of the name; \<^verbatim>\<open>""\<close> otherwise.
\<close>

definition path_suffix :: "path \<Rightarrow> string" where
  "path_suffix p =
     (let name = path_name p in
      case rfind CHR ''.'' name of
        None \<Rightarrow> []
      | Some i \<Rightarrow> if 0 < i \<and> i < length name - 1 then drop i name else [])"

text \<open>\<^verbatim>\<open>p / s\<close> for a string \<open>s\<close>: an absolute \<open>s\<close> replaces \<open>p\<close>.\<close>

definition joinpath :: "path \<Rightarrow> string \<Rightarrow> path" where
  "joinpath p s =
     (let q = Path s in
      if root q \<noteq> [] then q else \<lparr>root = root p, parts = parts p @ parts q\<rparr>)"

text \<open>
  The file system: the directories that exist and the regular files with their contents.
\<close>

record filesystem =
  dirs :: "path set"
  files :: "path \<rightharpoonup> string"

text \<open>The directories above a path, nearest last; the path itself is not among them.\<close>

definition ancestors :: "path \<Rightarrow> path list" where
  "ancestors p = map (\<lambda>n. \<lparr>root = root p, parts = take n (parts p)\<rparr>) [0 ..< length (parts p)]"

text \<open>
  \<^verbatim>\<open>p.mkdir(parents=True, exist_ok=True)\<close>: creates the directory and the missing
  directories above it; an existing directory is accepted, an existing regular file in
  its place or above it is not.
\<close>

definition mkdir_parents :: "filesystem \<Rightarrow> path \<Rightarrow> error + filesystem" where
  "mkdir_parents fs p =
     (if files fs p \<noteq> None then Inl FileExistsError
      else if \<exists>a \<in> set (ancestors p). files fs a \<noteq> None then Inl NotADirectoryError
      else Inr (fs\<lparr>dirs := dirs fs \<union> set (ancestors p) \<union> {p}\<rparr>))"

text \<open>\<^verbatim>\<open>p.open("wb")\<close>: the file is created, or emptied when it exists.\<close>

definition open_wb :: "filesystem \<Rightarrow> path \<Rightarrow> error + filesystem" where
  "open_wb fs p =
     (if p \<in> dirs fs then Inl IsADirectoryError
      else if parts p = [] \<or> \<lparr>root = root p, parts = butlast (parts p)\<rparr> \<notin> dirs fs
        then Inl FileNotFoundError
      else Inr (fs\<lparr>files := (files fs)(p \<mapsto> [])\<rparr>))"

text \<open>\<^verbatim>\<open>f.write(chunk)\<close> appends to the file.\<close>

definition write_chunk :: "path \<Rightarrow> string \<Rightarrow> filesystem \<Rightarrow> filesystem" where
  "write_chunk p chunk fs =
     fs\<lparr>files := (files fs)(p \<mapsto> (case files fs p of None \<Rightarrow> [] | Some old \<Rightarrow> old) @ chunk)\<rparr>"

text \<open>
  \<^verbatim>\<open>r.iter_content(chunk_size=n)\<close>: the bytes that arrive, in pieces of at most \<open>n\<close>
  bytes (here of \<open>n\<close> bytes, the last one shorter; the file that results does not depend
  on how they are cut).
\<close>

function iter_content :: "nat \<Rightarrow> string \<Rightarrow> string list" where
  "iter_content n s =
     (if n = 0 \<or> s = [] then [] else take n s # iter_content n (drop n s))"
  by pat_completeness auto
termination
  by (relation "measure (\<lambda>(n, s). length s)") auto

declare iter_content.simps [simp del]

section \<open>The result fetcher\<close>

text \<open>
  \<^verbatim>\<open>_download_image\<close>: \<open>view_reply\<close> is the server's answer to the GET and \<open>token\<close> the
  value of \<^verbatim>\<open>uuid.uuid4().hex\<close>. The result, the requests made and the file system
  afterwards. The response is streamed: its body is read by \<^verbatim>\<open>iter_content\<close> after the
  directory has been made and the file opened, so a connection that breaks then raises
  with the directory made and the bytes that arrived in the file.
\<close>

definition download_image ::
  "string \<Rightarrow> string \<Rightarrow> string \<Rightarrow> path \<Rightarrow> reply \<Rightarrow> string \<Rightarrow> filesystem
   \<Rightarrow> (error + path) \<times> event list \<times> filesystem"
where
  "download_image filename subfolder host save_dir view_reply token fs =
     (let url = rstrip CHR ''/'' host @ ''/view?'' @
                ''filename='' @ filename @ ''&type=output&subfolder='' @ subfolder
      in
      case bind (received view_reply) (\<lambda>r. bind (raise_for_status r) (\<lambda>_. Inr r)) of
        Inl e \<Rightarrow> (Inl e, [HttpGet url], fs)
      | Inr r \<Rightarrow>
          (case mkdir_parents fs save_dir of
             Inl e \<Rightarrow> (Inl e, [HttpGet url], fs)
           | Inr fs1 \<Rightarrow>
               (let ext = (if path_suffix (Path filename) \<noteq> [] then path_suffix (Path filename)
                           else ''.png'');
                    local_path = joinpath save_dir (token @ ext)
                in
                case open_wb fs1 local_path of
                  Inl e \<Rightarrow> (Inl e, [HttpGet url], fs1)
                | Inr fs2 \<Rightarrow>
                    (case stream_error r of
                       None \<Rightarrow> Inr local_path
                     | Some e \<Rightarrow> Inl (RequestException e),
                     [HttpGet url],
                     fold (write_chunk local_path) (iter_content 8192 (content r)) fs2))))"

text \<open>What \<^verbatim>\<open>uuid.uuid4().hex\<close> gives: 32 lower-case hexadecimal digits.\<close>

definition is_hex :: "char \<Rightarrow> bool" where
  "is_hex c = (is_digit c \<or> (97 \<le> (of_char c :: nat) \<and> (of_char c :: nat) \<le> 102))"

definition hex_token :: "string \<Rightarrow> bool" where
  "hex_token t = (length t = 32 \<and> list_all is_hex t)"

section \<open>The orchestration\<close>

text \<open>
  Lines 118 and 119. \<^verbatim>\<open>nodo_6\<close> and its \<^verbatim>\<open>"inputs"\<close> are the objects inside the workflow,
  so the assignment changes the workflow: the changed objects are stored back.
\<close>

definition inject_prompt :: "json \<Rightarrow> string \<Rightarrow> error + json" where
  "inject_prompt workflow prompt_text =
     bind (py_getitem workflow ''6'') (\<lambda>nodo_6.
     bind (py_getitem nodo_6 ''inputs'') (\<lambda>inputs.
     bind (py_setitem inputs ''text'' (JStr prompt_text)) (\<lambda>inputs'.
     bind (py_setitem nodo_6 ''inputs'' inputs') (\<lambda>nodo_6'.
       py_setitem workflow ''6'' nodo_6'))))"

text \<open>Lines 114 to 119: \<^verbatim>\<open>read_text\<close>, \<^verbatim>\<open>json.loads\<close> (a parameter: \<open>None\<close> for a text that is
  not JSON) and the injection.\<close>

definition load_workflow ::
  "(string \<Rightarrow> json option) \<Rightarrow> filesystem \<Rightarrow> string \<Rightarrow> string \<Rightarrow> error + json"
where
  "load_workflow json_loads fs workflow_path prompt_text =
     (if Path workflow_path \<in> dirs fs then Inl IsADirectoryError
      else case files fs (Path workflow_path) of
        None \<Rightarrow> Inl FileNotFoundError
      | Some raw \<Rightarrow>
          (case json_loads raw of
             None \<Rightarrow> Inl JSONDecodeError
           | Some workflow \<Rightarrow> inject_prompt workflow prompt_text))"

text \<open>
  What the world gives to one run of \<^verbatim>\<open>generar\<close>: the file system, the answer to the POST,
  the clock before the polling loop, the observations of the loop, the answer to the
  download and the random token. \<^verbatim>\<open>json.loads\<close> and the subtraction of floats are
  parameters of \<^verbatim>\<open>generar\<close>.
\<close>

record world =
  fs :: filesystem
  post_reply :: reply
  start_time :: real
  history :: "(reply \<times> real) list"
  view_reply :: reply
  uuid_hex :: string

definition generar ::
  "(string \<Rightarrow> json option) \<Rightarrow> (real \<Rightarrow> real \<Rightarrow> real) \<Rightarrow> string \<Rightarrow> string \<Rightarrow> string \<Rightarrow> string
   \<Rightarrow> pyfloat \<Rightarrow> int \<Rightarrow> world \<Rightarrow> path outcome \<times> event list \<times> filesystem"
where
  "generar json_loads fsub workflow_path prompt_text comfy_host out_dir poll_interval timeout w =
     (case load_workflow json_loads (fs w) workflow_path prompt_text of
        Inl e \<Rightarrow> (Raised e, [], fs w)
      | Inr workflow \<Rightarrow>
          (let prompt_wrapper = JObj [(''prompt'', workflow)];
               (posted, tr1) = post_prompt prompt_wrapper comfy_host (post_reply w)
           in
           case posted of
             Inl e \<Rightarrow> (Raised e, tr1, fs w)
           | Inr (JStr prompt_id) \<Rightarrow>
               (let (waited, tr2) =
                      wait_until_done fsub prompt_id comfy_host poll_interval timeout
                        (start_time w) (history w)
                in
                case waited of
                  Returned hist \<Rightarrow>
                    (case pick_last_image hist of
                       Inl e \<Rightarrow> (Raised e, tr1 @ tr2, fs w)
                     | Inr (JStr filename, JStr subfolder) \<Rightarrow>
                         (let (res, tr3, fs') =
                                download_image filename subfolder comfy_host (Path out_dir)
                                  (view_reply w) (uuid_hex w) (fs w)
                          in
                          (case res of Inl e \<Rightarrow> Raised e | Inr p \<Rightarrow> Returned p,
                           tr1 @ tr2 @ tr3, fs'))
                     | Inr _ \<Rightarrow> (IllTyped, tr1 @ tr2, fs w))
                | Raised e \<Rightarrow> (Raised e, tr1 @ tr2, fs w)
                | StillPolling \<Rightarrow> (StillPolling, tr1 @ tr2, fs w)
                | IllTyped \<Rightarrow> (IllTyped, tr1 @ tr2, fs w))
           | Inr _ \<Rightarrow> (IllTyped, tr1, fs w)))"

section \<open>Properties of the result selector\<close>

subsection \<open>Reading decimal strings\<close>

lemma digit_not_space: "is_digit c \<Longrightarrow> \<not> is_space c"
  by (auto simp: is_digit_def is_space_def)

lemma strip_digits:
  assumes "list_all is_digit s"
  shows "strip s = s"
proof (cases s rule: rev_cases)
  case Nil
  then show ?thesis by (simp add: strip_def)
next
  case (snoc ys y)
  with assms have y: "\<not> is_space y" by (simp add: digit_not_space)
  from assms have "dropWhile is_space s = s"
    by (cases s) (auto simp: digit_not_space)
  then show ?thesis using y snoc by (simp add: strip_def)
qed

lemma parse_digits_all:
  "list_all is_digit s \<Longrightarrow>
   parse_digits acc s = Some (foldl (\<lambda>a c. 10 * a + digit_val c) acc s)"
  by (induction acc s rule: parse_digits.induct) auto

lemma digit_not_sign: "is_digit c \<Longrightarrow> c \<noteq> CHR ''-'' \<and> c \<noteq> CHR ''+''"
  by (auto simp: is_digit_def)

lemma py_int_decimal:
  assumes "decimal_string s"
  shows "py_int s = Inr (int (dec_value s))"
proof -
  from assms obtain c cs where s: "s = c # cs" and c: "is_digit c" and all: "list_all is_digit s"
    by (cases s) (auto simp: decimal_string_def)
  have "strip s = s" using all by (rule strip_digits)
  moreover have "parse_nat s = Some (dec_value s)"
    using all c s by (simp add: parse_nat_def dec_value_def parse_digits_all del: parse_digits.simps)
  ultimately show ?thesis
    using s c digit_not_sign[OF c] by (simp add: py_int_def Let_def)
qed

lemma int_keys_ok:
  "\<forall>k \<in> set ks. \<exists>n. py_int k = Inr n \<Longrightarrow>
   \<exists>r. int_keys ks = Inr r \<and> map snd r = ks \<and> (\<forall>(n, k) \<in> set r. py_int k = Inr n)"
  by (induction ks) (auto simp: bind_def)

lemma sorted_le_last: "sorted xs \<Longrightarrow> x \<in> set xs \<Longrightarrow> x \<le> last xs"
  by (induction xs) auto

lemma last_sort_key_max:
  assumes "r \<noteq> []"
  shows "last (sort_key f r) \<in> set r \<and> (\<forall>x \<in> set r. f x \<le> f (last (sort_key f r)))"
proof -
  let ?s = "sort_key f r"
  have ne: "?s \<noteq> []" using assms by (metis length_sort length_0_conv)
  have mem: "last ?s \<in> set r" using last_in_set[OF ne] by simp
  have "sorted (map f ?s)" by simp
  then have "\<forall>y \<in> set (map f ?s). y \<le> last (map f ?s)"
    using sorted_le_last by blast
  then have "\<forall>x \<in> set r. f x \<le> f (last ?s)"
    using ne by (simp add: last_map)
  with mem show ?thesis by simp
qed

lemma last_node_max:
  assumes ne: "outs \<noteq> []"
    and ok: "\<forall>k \<in> set (map fst outs). \<exists>n. py_int k = Inr n"
  shows "\<exists>k n. last_node (JObj outs) = Inr k \<and> k \<in> set (map fst outs) \<and> py_int k = Inr n \<and>
           (\<forall>k' \<in> set (map fst outs). \<exists>n'. py_int k' = Inr n' \<and> n' \<le> n)"
proof -
  from int_keys_ok[OF ok] obtain r where r: "int_keys (map fst outs) = Inr r"
    and keys: "map snd r = map fst outs" and vals: "\<forall>(n, k) \<in> set r. py_int k = Inr n"
    by blast
  from keys ne have rne: "r \<noteq> []" by auto
  define m where "m = last (sort_key fst r)"
  from last_sort_key_max[OF rne, of fst] have m_in: "m \<in> set r"
    and m_max: "\<forall>x \<in> set r. fst x \<le> fst m" by (simp_all add: m_def)
  have sne: "sort_key fst r \<noteq> []" using rne by (metis length_sort length_0_conv)
  have ln: "last_node (JObj outs) = Inr (snd m)"
    using r sne by (simp add: last_node_def sorted_by_int_def bind_def m_def last_map)
  have k_in: "snd m \<in> set (map fst outs)" using m_in keys by (metis image_eqI set_map)
  have pm: "py_int (snd m) = Inr (fst m)" using vals m_in by (cases m) auto
  have "\<forall>k' \<in> set (map fst outs). \<exists>n'. py_int k' = Inr n' \<and> n' \<le> fst m"
  proof
    fix k' assume "k' \<in> set (map fst outs)"
    then have "k' \<in> set (map snd r)" using keys by simp
    then obtain x where x: "x \<in> set r" and k': "k' = snd x" by auto
    from vals x have "py_int (snd x) = Inr (fst x)" by (cases x) auto
    with m_max x k' show "\<exists>n'. py_int k' = Inr n' \<and> n' \<le> fst m" by auto
  qed
  with ln k_in pm show ?thesis by blast
qed

text \<open>
  Claim C1. For a non-empty \<^verbatim>\<open>outputs\<close> mapping whose keys are decimal-integer strings,
  \<^verbatim>\<open>int\<close> reads every key as the number it denotes, the selector takes the node whose key
  has the largest such value among the keys (the order of numbers, not of strings), and
  it reads the image from that node. For the keys \<^verbatim>\<open>"2"\<close>, \<^verbatim>\<open>"10"\<close>, \<^verbatim>\<open>"9"\<close> it takes node \<^verbatim>\<open>"10"\<close>.
\<close>

theorem C1_numeric_max:
  assumes "map_of h ''outputs'' = Some (JObj outs)"
    and "outs \<noteq> []"
    and "\<forall>k \<in> set (map fst outs). decimal_string k"
  shows "\<exists>k node. last_node (JObj outs) = Inr k \<and> k \<in> set (map fst outs) \<and>
           py_int k = Inr (int (dec_value k)) \<and>
           (\<forall>k' \<in> set (map fst outs).
              py_int k' = Inr (int (dec_value k')) \<and> dec_value k' \<le> dec_value k) \<and>
           map_of outs k = Some node \<and>
           pick_last_image (JObj h) = pick_from_node node"
proof -
  have val: "\<forall>k \<in> set (map fst outs). py_int k = Inr (int (dec_value k))"
    using assms(3) py_int_decimal by blast
  then have ok: "\<forall>k \<in> set (map fst outs). \<exists>n. py_int k = Inr n" by blast
  from last_node_max[OF assms(2) ok] obtain k n where ln: "last_node (JObj outs) = Inr k"
    and k_in: "k \<in> set (map fst outs)" and pk: "py_int k = Inr n"
    and mx: "\<forall>k' \<in> set (map fst outs). \<exists>n'. py_int k' = Inr n' \<and> n' \<le> n"
    by blast
  from val k_in pk have n: "n = int (dec_value k)" by auto
  have mx': "\<forall>k' \<in> set (map fst outs).
              py_int k' = Inr (int (dec_value k')) \<and> dec_value k' \<le> dec_value k"
  proof
    fix k' assume k': "k' \<in> set (map fst outs)"
    with mx obtain n' where "py_int k' = Inr n'" "n' \<le> n" by blast
    moreover from val k' have "py_int k' = Inr (int (dec_value k'))" by blast
    ultimately show "py_int k' = Inr (int (dec_value k')) \<and> dec_value k' \<le> dec_value k"
      using n by simp
  qed
  from k_in obtain node where node: "map_of outs k = Some node"
    by (metis map_of_eq_None_iff not_Some_eq set_map)
  have "pick_last_image (JObj h) = pick_from_node node"
    using assms(1,2) ln node by (simp add: pick_last_image_def bind_def)
  with ln k_in pk n mx' node show ?thesis by blast
qed

theorem C1_numeric_max_witness:
  "map_of [(''status'', JObj [(''completed'', JBool True)]),
           (''outputs'', JObj [(''2'', JObj [(''images'', JList [JObj [(''filename'', JStr ''a.png'')]])]),
                               (''10'', JObj [(''images'', JList [JObj [(''filename'', JStr ''b.png'')]])]),
                               (''9'', JObj [(''images'', JList [JObj [(''filename'', JStr ''c.png'')]])])])]
     ''outputs''
   = Some (JObj [(''2'', JObj [(''images'', JList [JObj [(''filename'', JStr ''a.png'')]])]),
                 (''10'', JObj [(''images'', JList [JObj [(''filename'', JStr ''b.png'')]])]),
                 (''9'', JObj [(''images'', JList [JObj [(''filename'', JStr ''c.png'')]])])])
   \<and> last_node (JObj [(''2'', JObj [(''images'', JList [JObj [(''filename'', JStr ''a.png'')]])]),
                 (''10'', JObj [(''images'', JList [JObj [(''filename'', JStr ''b.png'')]])]),
                 (''9'', JObj [(''images'', JList [JObj [(''filename'', JStr ''c.png'')]])])]) = Inr ''10''
   \<and> pick_last_image (JObj [(''status'', JObj [(''completed'', JBool True)]),
           (''outputs'', JObj [(''2'', JObj [(''images'', JList [JObj [(''filename'', JStr ''a.png'')]])]),
                               (''10'', JObj [(''images'', JList [JObj [(''filename'', JStr ''b.png'')]])]),
                               (''9'', JObj [(''images'', JList [JObj [(''filename'', JStr ''c.png'')]])])])])
     = Inr (JStr ''b.png'', JStr [])"
proof -
  let ?outs = "[(''2'', JObj [(''images'', JList [JObj [(''filename'', JStr ''a.png'')]])]),
                 (''10'', JObj [(''images'', JList [JObj [(''filename'', JStr ''b.png'')]])]),
                 (''9'', JObj [(''images'', JList [JObj [(''filename'', JStr ''c.png'')]])])]"
  let ?h = "[(''status'', JObj [(''completed'', JBool True)]), (''outputs'', JObj ?outs)]"
  have h: "map_of ?h ''outputs'' = Some (JObj ?outs)" by simp
  have ne: "?outs \<noteq> []" by simp
  have dec: "\<forall>k \<in> set (map fst ?outs). decimal_string k"
    by (simp add: decimal_string_def is_digit_def)
  have d2: "dec_value ''2'' = 2" and d10: "dec_value ''10'' = 10" and d9: "dec_value ''9'' = 9"
    by (simp_all add: dec_value_def digit_val_def)
  from C1_numeric_max[OF h ne dec] obtain k node where
    ln: "last_node (JObj ?outs) = Inr k" and k_in: "k \<in> set (map fst ?outs)"
    and mx: "\<forall>k' \<in> set (map fst ?outs).
              py_int k' = Inr (int (dec_value k')) \<and> dec_value k' \<le> dec_value k"
    and node: "map_of ?outs k = Some node"
    and pick: "pick_last_image (JObj ?h) = pick_from_node node"
    by (elim exE conjE)
  from k_in have "k = ''2'' \<or> k = ''10'' \<or> k = ''9''" by simp
  moreover from mx have "dec_value ''10'' \<le> dec_value k" by simp
  ultimately have k: "k = ''10''" using d2 d10 d9 by auto
  with node have "node = JObj [(''images'', JList [JObj [(''filename'', JStr ''b.png'')]])]" by simp
  then have "pick_from_node node = Inr (JStr ''b.png'', JStr [])"
    by (simp add: pick_from_node_def bind_def)
  with h ln k pick show ?thesis by simp
qed

subsection \<open>Errors and the chosen image\<close>

lemma last_node_nonempty: "last_node (JObj outs) = Inr k \<Longrightarrow> outs \<noteq> []"
  by (cases outs) (auto simp: last_node_def sorted_by_int_def bind_def)

text \<open>
  Claim C5. The selector raises \<^verbatim>\<open>ValueError\<close> (the spec's ValidationError), each time
  with a reason of its own, when the status object has no \<^verbatim>\<open>"outputs"\<close> key, when the
  \<^verbatim>\<open>"outputs"\<close> mapping is empty, and when the \<^verbatim>\<open>"images"\<close> list of the selected node is
  empty.
\<close>

theorem C5_validation_errors:
  "(map_of h ''outputs'' = None \<longrightarrow>
      pick_last_image (JObj h) = Inl (ValueError (NoOutputs (JObj h))))
   \<and> (map_of h ''outputs'' = Some (JObj []) \<longrightarrow>
      pick_last_image (JObj h) = Inl (ValueError NoImagesInOutputs))
   \<and> (map_of h ''outputs'' = Some (JObj outs) \<and> last_node (JObj outs) = Inr k \<and>
      map_of outs k = Some (JObj node) \<and> map_of node ''images'' = Some (JList []) \<longrightarrow>
      pick_last_image (JObj h) = Inl (ValueError FinalNodeWithoutImages))"
proof (intro conjI impI)
  assume "map_of h ''outputs'' = None"
  then show "pick_last_image (JObj h) = Inl (ValueError (NoOutputs (JObj h)))"
    by (simp add: pick_last_image_def bind_def)
next
  assume "map_of h ''outputs'' = Some (JObj [])"
  then show "pick_last_image (JObj h) = Inl (ValueError NoImagesInOutputs)"
    by (simp add: pick_last_image_def bind_def)
next
  assume a: "map_of h ''outputs'' = Some (JObj outs) \<and> last_node (JObj outs) = Inr k \<and>
      map_of outs k = Some (JObj node) \<and> map_of node ''images'' = Some (JList [])"
  then have "outs \<noteq> []" using last_node_nonempty by blast
  with a show "pick_last_image (JObj h) = Inl (ValueError FinalNodeWithoutImages)"
    by (simp add: pick_last_image_def pick_from_node_def bind_def)
qed

lemma last_node_single: "last_node (JObj [(''9'', v)]) = Inr ''9''"
  by (simp add: last_node_def sorted_by_int_def bind_def py_int_def strip_def is_space_def
      parse_nat_def is_digit_def digit_val_def)

theorem C5_validation_errors_witness:
  "pick_last_image (JObj [(''status'', JObj [(''completed'', JBool True)])])
     = Inl (ValueError (NoOutputs (JObj [(''status'', JObj [(''completed'', JBool True)])])))
   \<and> pick_last_image (JObj [(''outputs'', JObj [])]) = Inl (ValueError NoImagesInOutputs)
   \<and> pick_last_image (JObj [(''outputs'', JObj [(''9'', JObj [(''images'', JList [])])])])
     = Inl (ValueError FinalNodeWithoutImages)"
proof -
  have a: "pick_last_image (JObj [(''status'', JObj [(''completed'', JBool True)])])
     = Inl (ValueError (NoOutputs (JObj [(''status'', JObj [(''completed'', JBool True)])])))"
    using C5_validation_errors[of "[(''status'', JObj [(''completed'', JBool True)])]"]
    by simp
  have b: "pick_last_image (JObj [(''outputs'', JObj [])]) = Inl (ValueError NoImagesInOutputs)"
    using C5_validation_errors[of "[(''outputs'', JObj [])]"] by simp
  have c: "pick_last_image (JObj [(''outputs'', JObj [(''9'', JObj [(''images'', JList [])])])])
     = Inl (ValueError FinalNodeWithoutImages)"
    using C5_validation_errors[of "[(''outputs'', JObj [(''9'', JObj [(''images'', JList [])])])]"
        "[(''9'', JObj [(''images'', JList [])])]" "''9''" "[(''images'', JList [])]"]
      last_node_single[of "JObj [(''images'', JList [])]"]
    by simp
  from a b c show ?thesis by blast
qed

text \<open>
  Claim C8. When the \<^verbatim>\<open>"images"\<close> list of the selected node is not empty, the result of
  the selector is read from the last entry of the list, and from no other: its
  \<^verbatim>\<open>"filename"\<close> and its \<^verbatim>\<open>"subfolder"\<close>, the subfolder being the empty string when the
  entry has none.
\<close>

theorem C8_last_image:
  assumes "map_of h ''outputs'' = Some (JObj outs)"
    and "last_node (JObj outs) = Inr k"
    and "map_of outs k = Some (JObj node)"
    and "map_of node ''images'' = Some (JList imgs)"
    and "imgs \<noteq> []"
  shows "pick_last_image (JObj h)
           = bind (py_getitem (last imgs) ''filename'') (\<lambda>filename.
             bind (py_get (last imgs) ''subfolder'' (JStr [])) (\<lambda>subfolder.
               Inr (filename, subfolder)))
         \<and> (\<forall>img filename. last imgs = JObj img \<and> map_of img ''filename'' = Some filename \<longrightarrow>
              pick_last_image (JObj h)
                = Inr (filename, case map_of img ''subfolder'' of None \<Rightarrow> JStr [] | Some s \<Rightarrow> s))"
proof -
  have "outs \<noteq> []" using assms(2) by (rule last_node_nonempty)
  then have eq: "pick_last_image (JObj h)
           = bind (py_getitem (last imgs) ''filename'') (\<lambda>filename.
             bind (py_get (last imgs) ''subfolder'' (JStr [])) (\<lambda>subfolder.
               Inr (filename, subfolder)))"
    using assms by (simp add: pick_last_image_def pick_from_node_def bind_def)
  show ?thesis
  proof (intro conjI allI impI)
    show "pick_last_image (JObj h)
           = bind (py_getitem (last imgs) ''filename'') (\<lambda>filename.
             bind (py_get (last imgs) ''subfolder'' (JStr [])) (\<lambda>subfolder.
               Inr (filename, subfolder)))"
      by (rule eq)
  next
    fix img filename
    assume "last imgs = JObj img \<and> map_of img ''filename'' = Some filename"
    then show "pick_last_image (JObj h)
                = Inr (filename, case map_of img ''subfolder'' of None \<Rightarrow> JStr [] | Some s \<Rightarrow> s)"
      unfolding eq by (simp add: bind_def)
  qed
qed

theorem C8_last_image_witness:
  "pick_last_image (JObj [(''outputs'', JObj [(''9'', JObj [(''images'',
       JList [JObj [(''filename'', JStr ''first.png''), (''subfolder'', JStr ''tmp'')],
              JObj [(''filename'', JStr ''last.png'')]])])])])
   = Inr (JStr ''last.png'', JStr [])"
proof -
  let ?imgs = "[JObj [(''filename'', JStr ''first.png''), (''subfolder'', JStr ''tmp'')],
              JObj [(''filename'', JStr ''last.png'')]]"
  let ?node = "[(''images'', JList ?imgs)]"
  let ?outs = "[(''9'', JObj ?node)]"
  have 1: "map_of [(''outputs'', JObj ?outs)] ''outputs'' = Some (JObj ?outs)" by simp
  have 2: "last_node (JObj ?outs) = Inr ''9''" by (rule last_node_single)
  have 3: "map_of ?outs ''9'' = Some (JObj ?node)" by simp
  have 4: "map_of ?node ''images'' = Some (JList ?imgs)" by simp
  have 5: "?imgs \<noteq> []" by simp
  have 6: "last ?imgs = JObj [(''filename'', JStr ''last.png'')] \<and>
      map_of [(''filename'', JStr ''last.png'')] ''filename'' = Some (JStr ''last.png'')" by simp
  show ?thesis
    using C8_last_image[OF 1 2 3 4 5, THEN conjunct2, rule_format, OF 6] by simp
qed

section \<open>Properties of the submitter and of the orchestration\<close>







text \<open>
  Claim C6. When the text of the workflow file is not JSON, \<^verbatim>\<open>generar\<close> raises
  \<^verbatim>\<open>JSONDecodeError\<close> (the spec's ParseError); when the decoded workflow is a mapping
  without the key \<^verbatim>\<open>"6"\<close>, it raises \<^verbatim>\<open>KeyError\<close> (the spec's MissingNodeError). In both
  cases, as after every failure of loading and changing the workflow, no request has been
  sent and the file system is as before.
\<close>

theorem C6_fails_before_network:
  "(Path workflow_path \<notin> dirs (fs w) \<and> files (fs w) (Path workflow_path) = Some raw \<and>
      json_loads raw = None \<longrightarrow>
      generar json_loads fsub workflow_path prompt_text host out_dir poll timeout w
        = (Raised JSONDecodeError, [], fs w))
   \<and> (Path workflow_path \<notin> dirs (fs w) \<and> files (fs w) (Path workflow_path) = Some raw \<and>
      json_loads raw = Some (JObj kv) \<and> map_of kv ''6'' = None \<longrightarrow>
      generar json_loads fsub workflow_path prompt_text host out_dir poll timeout w
        = (Raised (KeyError ''6''), [], fs w))
   \<and> (load_workflow json_loads (fs w) workflow_path prompt_text = Inl e \<longrightarrow>
      generar json_loads fsub workflow_path prompt_text host out_dir poll timeout w
        = (Raised e, [], fs w))"
  by (simp add: generar_def load_workflow_def inject_prompt_def bind_def)

theorem C6_fails_before_network_witness:
  "generar (\<lambda>s. if s = ''{}'' then Some (JObj []) else None) (-) ''bad.json'' ''a cat''
       ''http://localhost:8188'' ''./outputs'' (Finite 2) 300
       \<lparr>fs = \<lparr>dirs = {}, files = [Path ''bad.json'' \<mapsto> ''not json'', Path ''empty.json'' \<mapsto> ''{}'']\<rparr>,
        post_reply = Inl ConnectionError, start_time = 0, history = [],
        view_reply = Inl ConnectionError, uuid_hex = []\<rparr>
     = (Raised JSONDecodeError, [],
        \<lparr>dirs = {}, files = [Path ''bad.json'' \<mapsto> ''not json'', Path ''empty.json'' \<mapsto> ''{}'']\<rparr>)
   \<and> generar (\<lambda>s. if s = ''{}'' then Some (JObj []) else None) (-) ''empty.json'' ''a cat''
       ''http://localhost:8188'' ''./outputs'' (Finite 2) 300
       \<lparr>fs = \<lparr>dirs = {}, files = [Path ''bad.json'' \<mapsto> ''not json'', Path ''empty.json'' \<mapsto> ''{}'']\<rparr>,
        post_reply = Inl ConnectionError, start_time = 0, history = [],
        view_reply = Inl ConnectionError, uuid_hex = []\<rparr>
     = (Raised (KeyError ''6''), [],
        \<lparr>dirs = {}, files = [Path ''bad.json'' \<mapsto> ''not json'', Path ''empty.json'' \<mapsto> ''{}'']\<rparr>)"
proof -
  let ?loads = "\<lambda>s. if s = ''{}'' then Some (JObj []) else None"
  let ?fs = "\<lparr>dirs = {}, files = [Path ''bad.json'' \<mapsto> ''not json'', Path ''empty.json'' \<mapsto> ''{}'']\<rparr>"
  let ?w = "\<lparr>fs = ?fs, post_reply = Inl ConnectionError, start_time = 0, history = [],
        view_reply = Inl ConnectionError, uuid_hex = []\<rparr>"
  have ne: "Path ''bad.json'' \<noteq> Path ''empty.json''"
    by (simp add: Path_def)
  have a: "generar ?loads (-) ''bad.json'' ''a cat'' ''http://localhost:8188'' ''./outputs'' (Finite 2) 300 ?w
      = (Raised JSONDecodeError, [], ?fs)"
    using C6_fails_before_network[of "''bad.json''" ?w "''not json''" ?loads] ne
    by simp
  have b: "generar ?loads (-) ''empty.json'' ''a cat'' ''http://localhost:8188'' ''./outputs'' (Finite 2) 300 ?w
      = (Raised (KeyError ''6''), [], ?fs)"
    using C6_fails_before_network[of "''empty.json''" ?w "''{}''" ?loads _ _ _ _ _ _ "[]"] ne
    by simp
  from a b show ?thesis by (intro conjI)
qed

section \<open>Properties of the workflow loader\<close>

lemma map_of_update_same: "map_of (AList.update k v al) k = Some v"
  by (simp add: update_conv')

text \<open>
  Claim C3, as stated, fails: a workflow whose node \<^verbatim>\<open>"6"\<close> has no \<^verbatim>\<open>"inputs"\<close> mapping is
  a JSON object containing the key \<^verbatim>\<open>"6"\<close>, and the assignment raises \<^verbatim>\<open>KeyError\<close>
  instead of creating the field.
\<close>

theorem C3_counterexample:
  "inject_prompt (JObj [(''6'', JObj [(''class_type'', JStr ''CLIPTextEncode'')])]) ''a cat''
   = Inl (KeyError ''inputs'')"
  by (simp add: inject_prompt_def bind_def)

text \<open>
  Claim C3, amended. For every workflow mapping whose node \<^verbatim>\<open>"6"\<close> is a mapping with an
  \<^verbatim>\<open>"inputs"\<close> mapping, and for every prompt string, loading and changing the workflow
  succeeds and the value at \<^verbatim>\<open>workflow["6"]["inputs"]["text"]\<close> is then the prompt string
  itself, whether the field existed before or not.
\<close>

theorem C3_prompt_injected:
  assumes "Path workflow_path \<notin> dirs fsys"
    and "files fsys (Path workflow_path) = Some raw"
    and "json_loads raw = Some (JObj w)"
    and "map_of w ''6'' = Some (JObj node)"
    and "map_of node ''inputs'' = Some (JObj inputs)"
  shows "\<exists>wk. load_workflow json_loads fsys workflow_path prompt_text = Inr wk \<and>
           bind (py_getitem wk ''6'') (\<lambda>n.
           bind (py_getitem n ''inputs'') (\<lambda>i. py_getitem i ''text'')) = Inr (JStr prompt_text)"
  using assms
  by (simp add: load_workflow_def inject_prompt_def bind_def map_of_update_same)

theorem C3_prompt_injected_witness:
  "load_workflow (\<lambda>s. if s = ''w'' then
        Some (JObj [(''6'', JObj [(''inputs'', JObj [(''text'', JStr ''old''), (''clip'', JNull)])])])
        else None)
      \<lparr>dirs = {}, files = [Path ''flux.json'' \<mapsto> ''w'']\<rparr> ''flux.json'' ''say \"hi\"''
   = Inr (JObj [(''6'', JObj [(''inputs'', JObj [(''text'', JStr ''say \"hi\"''), (''clip'', JNull)])])])"
proof -
  let ?w = "[(''6'', JObj [(''inputs'', JObj [(''text'', JStr ''old''), (''clip'', JNull)])])]"
  let ?loads = "\<lambda>s. if s = ''w'' then Some (JObj ?w) else None"
  let ?fs = "\<lparr>dirs = {}, files = [Path ''flux.json'' \<mapsto> ''w'']\<rparr>"
  have 1: "Path ''flux.json'' \<notin> dirs ?fs" by simp
  have 2: "files ?fs (Path ''flux.json'') = Some ''w''" by simp
  have 3: "?loads ''w'' = Some (JObj ?w)" by simp
  have 4: "map_of ?w ''6'' = Some (JObj [(''inputs'', JObj [(''text'', JStr ''old''), (''clip'', JNull)])])"
    by simp
  have 5: "map_of [(''inputs'', JObj [(''text'', JStr ''old''), (''clip'', JNull)])] ''inputs''
      = Some (JObj [(''text'', JStr ''old''), (''clip'', JNull)])" by simp
  from C3_prompt_injected[of "''flux.json''" ?fs "''w''" ?loads, OF 1 2 3 4 5, of "''say \"hi\"''"]
  show ?thesis
    by (simp add: load_workflow_def inject_prompt_def bind_def)
qed

section \<open>Properties of the result fetcher\<close>

subsection \<open>Names, suffixes and joined paths\<close>

lemma split_on_nonempty: "split_on c s \<noteq> []"
  by (induction s) (auto split: list.splits)

lemma split_on_pieces: "x \<in> set (split_on c s) \<Longrightarrow> c \<notin> set x"
proof (induction s arbitrary: x)
  case Nil
  then show ?case by simp
next
  case (Cons a s)
  show ?case
  proof (cases "a = c")
    case True
    with Cons show ?thesis by auto
  next
    case False
    obtain w ws where sp: "split_on c s = w # ws"
      using split_on_nonempty[of c s] by (cases "split_on c s") auto
    with False Cons.prems have "x = a # w \<or> x \<in> set ws" by simp
    then show ?thesis
    proof
      assume "x = a # w"
      moreover have "c \<notin> set w" using Cons.IH[of w] sp by simp
      ultimately show ?thesis using False by auto
    next
      assume "x \<in> set ws"
      then show ?thesis using Cons.IH[of x] sp by simp
    qed
  qed
qed

lemma split_on_whole: "c \<notin> set s \<Longrightarrow> split_on c s = [s]"
  by (induction s) auto

lemma path_name_no_slash: "CHR ''/'' \<notin> set (path_name (Path s))"
proof (cases "parts (Path s) = []")
  case True
  then show ?thesis by (simp add: path_name_def)
next
  case False
  then have "last (parts (Path s)) \<in> set (parts (Path s))" by (rule last_in_set)
  then have "last (parts (Path s)) \<in> set (split_on CHR ''/'' s)" by (simp add: Path_def)
  then show ?thesis using False split_on_pieces by (simp add: path_name_def)
qed

lemma rfind_none: "c \<notin> set s \<Longrightarrow> rfind c s = None"
  by (induction s) auto

lemma rfind_append: "c \<notin> set rest \<Longrightarrow> rfind c (xs @ c # rest) = Some (length xs)"
  by (induction xs) (auto simp: rfind_none)

lemma rfind_some:
  "rfind c s = Some i \<Longrightarrow> i < length s \<and> s ! i = c \<and> c \<notin> set (drop (Suc i) s)"
proof (induction s arbitrary: i)
  case Nil
  then show ?case by simp
next
  case (Cons a s)
  show ?case
  proof (cases "rfind c s")
    case None
    with Cons.prems have "a = c" and "i = 0" by (auto split: if_splits)
    moreover have "c \<notin> set s"
    proof
      assume "c \<in> set s"
      then have "rfind c s \<noteq> None" by (induction s) (auto split: option.splits)
      with None show False by simp
    qed
    ultimately show ?thesis by simp
  next
    case (Some j)
    with Cons.prems have "i = Suc j" by simp
    with Cons.IH[OF Some] show ?thesis by simp
  qed
qed

text \<open>A suffix that is not empty: a dot, then at least one character, none of them a dot or a slash.\<close>

lemma path_suffix_shape:
  assumes "path_suffix (Path s) \<noteq> []"
  shows "\<exists>rest. path_suffix (Path s) = CHR ''.'' # rest \<and> rest \<noteq> [] \<and>
           CHR ''.'' \<notin> set rest \<and> CHR ''/'' \<notin> set rest"
proof -
  let ?name = "path_name (Path s)"
  from assms obtain i where i: "rfind CHR ''.'' ?name = Some i"
    and bounds: "0 < i" "i < length ?name - 1"
    and suf: "path_suffix (Path s) = drop i ?name"
    by (auto simp: path_suffix_def Let_def split: option.splits if_splits)
  from rfind_some[OF i] have lt: "i < length ?name" and dot: "?name ! i = CHR ''.''"
    and nodot: "CHR ''.'' \<notin> set (drop (Suc i) ?name)" by simp_all
  have d: "drop i ?name = CHR ''.'' # drop (Suc i) ?name"
    using lt dot by (metis Cons_nth_drop_Suc)
  have ne: "drop (Suc i) ?name \<noteq> []" using bounds by simp
  have "CHR ''/'' \<notin> set (drop (Suc i) ?name)"
    using path_name_no_slash[of s] by (meson in_set_dropD)
  with suf d ne nodot show ?thesis by simp
qed

lemma is_hex_plain: "is_hex c \<Longrightarrow> c \<noteq> CHR ''.'' \<and> c \<noteq> CHR ''/''"
  by (auto simp: is_hex_def is_digit_def)

lemma hex_token_plain:
  assumes "hex_token t"
  shows "t \<noteq> [] \<and> CHR ''.'' \<notin> set t \<and> CHR ''/'' \<notin> set t"
proof -
  from assms have len: "length t = 32" and all: "\<forall>c \<in> set t. is_hex c"
    by (simp_all add: hex_token_def list_all_iff)
  from len have "t \<noteq> []" by auto
  moreover from all have "CHR ''.'' \<notin> set t" using is_hex_plain by blast
  moreover from all have "CHR ''/'' \<notin> set t" using is_hex_plain by blast
  ultimately show ?thesis by simp
qed

text \<open>The local name: the token, then a dot and an extension without dot or slash.\<close>

lemma join_local_name:
  assumes "t \<noteq> []" and "CHR ''/'' \<notin> set t" and "CHR ''/'' \<notin> set rest"
  shows "joinpath d (t @ CHR ''.'' # rest) = \<lparr>root = root d, parts = parts d @ [t @ CHR ''.'' # rest]\<rparr>"
proof -
  let ?n = "t @ CHR ''.'' # rest"
  have noslash: "CHR ''/'' \<notin> set ?n" using assms by simp
  then have sp: "split_on CHR ''/'' ?n = [?n]" by (rule split_on_whole)
  have nedot: "?n \<noteq> ''.''" using assms(1) by (cases t) auto
  obtain a as where t: "t = a # as" using assms(1) by (cases t) auto
  with assms(2) have "a \<noteq> CHR ''/''" by auto
  with t have r: "root_of ?n = []" by (simp add: root_of_def)
  have "Path ?n = \<lparr>root = [], parts = [?n]\<rparr>"
    using sp nedot r by (simp add: Path_def)
  then show ?thesis by (simp add: joinpath_def Let_def)
qed

lemma suffix_local_name:
  assumes "t \<noteq> []" and "CHR ''.'' \<notin> set t" and "rest \<noteq> []" and "CHR ''.'' \<notin> set rest"
  shows "path_suffix \<lparr>root = r, parts = ps @ [t @ CHR ''.'' # rest]\<rparr> = CHR ''.'' # rest"
proof -
  have "rfind CHR ''.'' (t @ CHR ''.'' # rest) = Some (length t)"
    using assms(4) by (rule rfind_append)
  moreover have "0 < length t" using assms(1) by simp
  moreover have "length t < length (t @ CHR ''.'' # rest) - 1" using assms(3) by simp
  ultimately show ?thesis by (simp add: path_suffix_def path_name_def Let_def)
qed

text \<open>The extension of line 94, and what a successful download returns.\<close>

lemma ext_shape:
  assumes "ext = (if path_suffix (Path filename) \<noteq> [] then path_suffix (Path filename) else ''.png'')"
  shows "\<exists>rest. ext = CHR ''.'' # rest \<and> rest \<noteq> [] \<and> CHR ''.'' \<notin> set rest \<and> CHR ''/'' \<notin> set rest"
proof (cases "path_suffix (Path filename) \<noteq> []")
  case True
  then show ?thesis using assms path_suffix_shape[OF True] by simp
next
  case False
  then have "ext = CHR ''.'' # ''png''" using assms by simp
  then show ?thesis by simp
qed

lemma download_image_returns:
  assumes "fst (download_image filename subfolder host save_dir reply token fsys) = Inr local_path"
  shows "local_path = joinpath save_dir
           (token @ (if path_suffix (Path filename) \<noteq> [] then path_suffix (Path filename) else ''.png''))"
  using assms
  by (auto simp: download_image_def Let_def split: sum.splits option.splits)

subsection \<open>What is written\<close>

lemma iter_content_concat: "0 < n \<Longrightarrow> concat (iter_content n s) = s"
proof (induction n s rule: iter_content.induct)
  case (1 n s)
  show ?case
  proof (cases "s = []")
    case True
    then show ?thesis by (simp add: iter_content.simps)
  next
    case False
    with 1 have "concat (iter_content n (drop n s)) = drop n s" by simp
    with False 1(2) show ?thesis by (subst iter_content.simps) simp
  qed
qed

lemma fold_write_chunk:
  "files fsys p = Some old \<Longrightarrow>
   fold (write_chunk p) cs fsys = fsys\<lparr>files := (files fsys)(p \<mapsto> old @ concat cs)\<rparr>"
proof (induction cs arbitrary: fsys old)
  case Nil
  then have "(files fsys)(p \<mapsto> old) = files fsys" by (simp add: map_upd_triv)
  then show ?case by simp
next
  case (Cons c cs)
  have w: "write_chunk p c fsys = fsys\<lparr>files := (files fsys)(p \<mapsto> old @ c)\<rparr>"
    using Cons.prems by (simp add: write_chunk_def)
  have "fold (write_chunk p) (c # cs) fsys
        = fold (write_chunk p) cs (fsys\<lparr>files := (files fsys)(p \<mapsto> old @ c)\<rparr>)"
    by (simp add: w)
  also have "\<dots> = (fsys\<lparr>files := (files fsys)(p \<mapsto> old @ c)\<rparr>)
        \<lparr>files := (files (fsys\<lparr>files := (files fsys)(p \<mapsto> old @ c)\<rparr>))
                     (p \<mapsto> (old @ c) @ concat cs)\<rparr>"
    by (rule Cons.IH) simp
  also have "\<dots> = fsys\<lparr>files := (files fsys)(p \<mapsto> old @ concat (c # cs))\<rparr>"
    by simp
  finally show ?case .
qed

text \<open>
  A download that returns a path: the response was not rejected, its whole body arrived,
  and the file system has the directory and, at the returned path, a file with that body;
  no other file has changed.
\<close>

lemma download_image_saved:
  assumes "fst (download_image filename subfolder host save_dir reply token fsys) = Inr lp"
  shows "\<exists>r. reply = Inr r \<and> stream_error r = None \<and>
           files (snd (snd (download_image filename subfolder host save_dir reply token fsys))) lp
             = Some (content r) \<and>
           save_dir \<in> dirs (snd (snd (download_image filename subfolder host save_dir reply token fsys))) \<and>
           (\<forall>q. q \<noteq> lp \<longrightarrow>
              files (snd (snd (download_image filename subfolder host save_dir reply token fsys))) q
                = files fsys q)"
proof -
  let ?D = "download_image filename subfolder host save_dir reply token fsys"
  define lp0 where "lp0 = joinpath save_dir
    (token @ (if path_suffix (Path filename) \<noteq> [] then path_suffix (Path filename) else ''.png''))"
  obtain r where r: "reply = Inr r" and ok: "raise_for_status r = Inr ()"
    using assms
    by (cases reply; cases "raise_for_status (projr reply)")
       (auto simp: download_image_def received_def bind_def Let_def)
  obtain fs1 where fs1: "mkdir_parents fsys save_dir = Inr fs1"
    using assms r ok
    by (cases "mkdir_parents fsys save_dir")
       (auto simp: download_image_def received_def bind_def Let_def)
  obtain fs2 where fs2: "open_wb fs1 lp0 = Inr fs2"
    using assms r ok fs1
    by (cases "open_wb fs1 lp0")
       (auto simp: download_image_def received_def bind_def Let_def lp0_def)
  have D: "?D = (case stream_error r of None \<Rightarrow> Inr lp0 | Some e \<Rightarrow> Inl (RequestException e),
                 [HttpGet (rstrip CHR ''/'' host @ ''/view?'' @
                    ''filename='' @ filename @ ''&type=output&subfolder='' @ subfolder)],
                 fold (write_chunk lp0) (iter_content 8192 (content r)) fs2)"
    using r ok fs1 fs2 unfolding lp0_def download_image_def Let_def
    by (cases "stream_error r") (simp_all add: received_def bind_def)
  from assms D have se: "stream_error r = None" and lp: "lp = lp0"
    by (cases "stream_error r"; simp)+
  have d1: "dirs fs1 = dirs fsys \<union> set (ancestors save_dir) \<union> {save_dir}"
    and f1: "files fs1 = files fsys"
    using fs1 by (auto simp: mkdir_parents_def split: if_splits)
  have s2: "fs2 = fs1\<lparr>files := (files fs1)(lp0 \<mapsto> [])\<rparr>"
    using fs2 by (auto simp: open_wb_def split: if_splits)
  then have "files fs2 lp0 = Some []" by simp
  from fold_write_chunk[OF this, of "iter_content 8192 (content r)"]
  have w: "fold (write_chunk lp0) (iter_content 8192 (content r)) fs2
           = fs2\<lparr>files := (files fs2)(lp0 \<mapsto> content r)\<rparr>"
    by (simp add: iter_content_concat)
  have D': "snd (snd ?D) = fs2\<lparr>files := (files fs2)(lp0 \<mapsto> content r)\<rparr>"
    by (simp add: D w)
  have "files (snd (snd ?D)) lp = Some (content r)"
    unfolding D' by (simp add: lp)
  moreover have "save_dir \<in> dirs (snd (snd ?D))"
    unfolding D' by (simp add: s2 d1)
  moreover have "\<forall>q. q \<noteq> lp \<longrightarrow> files (snd (snd ?D)) q = files fsys q"
    unfolding D' by (simp add: s2 f1 lp)
  ultimately show ?thesis using r se by simp
qed

text \<open>
  In every run, with or without an error, the only file whose content changes is the one
  at the local path.
\<close>

lemma download_image_writes:
  assumes "files (snd (snd (download_image filename subfolder host save_dir reply token fsys))) q
             \<noteq> files fsys q"
  shows "q = joinpath save_dir
           (token @ (if path_suffix (Path filename) \<noteq> [] then path_suffix (Path filename) else ''.png''))"
proof -
  let ?D = "download_image filename subfolder host save_dir reply token fsys"
  define lp0 where "lp0 = joinpath save_dir
    (token @ (if path_suffix (Path filename) \<noteq> [] then path_suffix (Path filename) else ''.png''))"
  show ?thesis
  proof (cases "bind (received reply) (\<lambda>r. bind (raise_for_status r) (\<lambda>_. Inr r))")
    case (Inl e)
    then have "snd (snd ?D) = fsys" by (simp add: download_image_def Let_def)
    with assms show ?thesis by simp
  next
    case (Inr r)
    note r = this
    show ?thesis
    proof (cases "mkdir_parents fsys save_dir")
      case (Inl e)
      with r have "snd (snd ?D) = fsys" by (simp add: download_image_def Let_def)
      with assms show ?thesis by simp
    next
      case (Inr fs1)
      note fs1 = this
      then have f1: "files fs1 = files fsys"
        by (auto simp: mkdir_parents_def split: if_splits)
      show ?thesis
      proof (cases "open_wb fs1 lp0")
        case (Inl e)
        with r fs1 have "snd (snd ?D) = fs1"
          unfolding lp0_def download_image_def Let_def by simp
        with assms f1 show ?thesis by simp
      next
        case (Inr fs2)
        then have s2: "fs2 = fs1\<lparr>files := (files fs1)(lp0 \<mapsto> [])\<rparr>"
          by (auto simp: open_wb_def split: if_splits)
        then have "files fs2 lp0 = Some []" by simp
        from fold_write_chunk[OF this, of "iter_content 8192 (content r)"]
        have w: "fold (write_chunk lp0) (iter_content 8192 (content r)) fs2
                 = fs2\<lparr>files := (files fs2)(lp0 \<mapsto> content r)\<rparr>"
          by (simp add: iter_content_concat)
        have "snd (snd ?D) = fold (write_chunk lp0) (iter_content 8192 (content r)) fs2"
          using r fs1 Inr unfolding lp0_def download_image_def Let_def by simp
        then have "snd (snd ?D) = fs2\<lparr>files := (files fs2)(lp0 \<mapsto> content r)\<rparr>"
          by (simp only: w)
        then have "files (snd (snd ?D)) q = (if q = lp0 then Some (content r) else files fsys q)"
          by (simp add: s2 f1)
        with assms have "q = lp0" by (cases "q = lp0") simp_all
        then show ?thesis by (simp add: lp0_def)
      qed
    qed
  qed
qed

subsection \<open>A run on an empty file system\<close>

lemma Path_outputs: "Path ''./outputs'' = \<lparr>root = [], parts = [''outputs'']\<rparr>"
  by (simp add: Path_def root_of_def)

lemma suffix_result: "path_suffix (Path ''result'') = []"
  by (simp add: Path_def root_of_def path_suffix_def path_name_def)

lemma suffix_photo: "path_suffix (Path ''sub/photo.jpg'') = ''.jpg''"
  by (simp add: Path_def root_of_def path_suffix_def path_name_def)

lemma suffix_img: "path_suffix (Path ''img.png'') = ''.png''"
  by (simp add: Path_def root_of_def path_suffix_def path_name_def)

lemma hex_example: "hex_token ''0123456789abcdef0123456789abcdef''"
  by (simp add: hex_token_def is_hex_def is_digit_def)

lemma ancestors_outputs: "ancestors \<lparr>root = [], parts = [''outputs'']\<rparr> = [\<lparr>root = [], parts = []\<rparr>]"
  by (simp add: ancestors_def)

lemma download_example_run:
  assumes "hex_token t"
    and "ext = (if path_suffix (Path filename) \<noteq> [] then path_suffix (Path filename) else ''.png'')"
    and "\<not> (400 \<le> status_code r \<and> status_code r < 600)"
  shows "download_image filename [] ''http://localhost:8188'' (Path ''./outputs'') (Inr r)
            t \<lparr>dirs = {}, files = Map.empty\<rparr>
         = (case stream_error r of
              None \<Rightarrow> Inr \<lparr>root = [], parts = [''outputs'', t @ ext]\<rparr>
            | Some e \<Rightarrow> Inl (RequestException e),
            [HttpGet (''http://localhost:8188/view?filename='' @ filename @ ''&type=output&subfolder='')],
            \<lparr>dirs = {\<lparr>root = [], parts = [''outputs'']\<rparr>, \<lparr>root = [], parts = []\<rparr>},
             files = [\<lparr>root = [], parts = [''outputs'', t @ ext]\<rparr> \<mapsto> content r]\<rparr>)"
proof -
  from ext_shape[OF assms(2)] obtain rest where ext: "ext = CHR ''.'' # rest"
    and rest: "rest \<noteq> []" "CHR ''.'' \<notin> set rest" "CHR ''/'' \<notin> set rest"
    by (elim exE conjE)
  from hex_token_plain[OF assms(1)] have tok: "t \<noteq> []" "CHR ''/'' \<notin> set t" by simp_all
  let ?lp = "\<lparr>root = [], parts = [''outputs'', t @ ext]\<rparr>"
  let ?fs2 = "\<lparr>dirs = {\<lparr>root = [], parts = [''outputs'']\<rparr>, \<lparr>root = [], parts = []\<rparr>},
                  files = [?lp \<mapsto> []]\<rparr>"
  have j: "joinpath \<lparr>root = [], parts = [''outputs'']\<rparr> (t @ ext) = ?lp"
    using join_local_name[OF tok rest(3), of "\<lparr>root = [], parts = [''outputs'']\<rparr>"] ext by simp
  have m: "mkdir_parents \<lparr>dirs = {}, files = Map.empty\<rparr> \<lparr>root = [], parts = [''outputs'']\<rparr>
           = Inr \<lparr>dirs = {\<lparr>root = [], parts = [''outputs'']\<rparr>, \<lparr>root = [], parts = []\<rparr>}, files = Map.empty\<rparr>"
    by (simp add: mkdir_parents_def ancestors_outputs)
  have o: "open_wb \<lparr>dirs = {\<lparr>root = [], parts = [''outputs'']\<rparr>, \<lparr>root = [], parts = []\<rparr>}, files = Map.empty\<rparr>
             ?lp = Inr ?fs2"
    by (simp add: open_wb_def)
  have "files ?fs2 ?lp = Some []" by simp
  from fold_write_chunk[OF this, of "iter_content 8192 (content r)"]
  have w: "fold (write_chunk ?lp) (iter_content 8192 (content r)) ?fs2
           = \<lparr>dirs = {\<lparr>root = [], parts = [''outputs'']\<rparr>, \<lparr>root = [], parts = []\<rparr>},
              files = [?lp \<mapsto> content r]\<rparr>"
    by (simp add: iter_content_concat)
  have u: "rstrip CHR ''/'' ''http://localhost:8188'' = ''http://localhost:8188''"
    by (simp add: rstrip_def)
  show ?thesis
    unfolding download_image_def Let_def Path_outputs assms(2)[symmetric] u
    using assms(3)
    by (cases "stream_error r") (simp_all add: bind_def received_def raise_for_status_def m j o w)
qed

lemma download_example:
  assumes "hex_token t"
    and "ext = (if path_suffix (Path filename) \<noteq> [] then path_suffix (Path filename) else ''.png'')"
  shows "fst (download_image filename [] ''http://localhost:8188'' (Path ''./outputs'')
            (Inr \<lparr>status_code = 200, body_json = None, content = ''bytes'', stream_error = None\<rparr>)
            t \<lparr>dirs = {}, files = Map.empty\<rparr>)
         = Inr \<lparr>root = [], parts = [''outputs'', t @ ext]\<rparr>"
  by (simp add: download_example_run[OF assms])

text \<open>
  Claim C7. When the fetcher returns, a file with the body of the response has been saved
  at the returned path, no other file has changed, and the extension of that file is the
  extension of the remote filename when it has one and \<^verbatim>\<open>.png\<close> when it has none:
  \<^verbatim>\<open>photo.jpg\<close> keeps \<^verbatim>\<open>.jpg\<close>, \<^verbatim>\<open>result\<close> gets \<^verbatim>\<open>.png\<close>. In every run, also one that
  ends with an error, a file that the fetcher has written has that extension.
\<close>

theorem C7_extension:
  assumes "hex_token token"
  shows "(fst (download_image filename subfolder host save_dir reply token fsys) = Inr local_path \<longrightarrow>
           path_suffix local_path =
             (if path_suffix (Path filename) \<noteq> [] then path_suffix (Path filename) else ''.png'')
           \<and> (\<exists>r. reply = Inr r \<and>
                 files (snd (snd (download_image filename subfolder host save_dir reply token fsys)))
                   local_path = Some (content r))
           \<and> (\<forall>q. q \<noteq> local_path \<longrightarrow>
                 files (snd (snd (download_image filename subfolder host save_dir reply token fsys))) q
                   = files fsys q))
         \<and> (\<forall>q. files (snd (snd (download_image filename subfolder host save_dir reply token fsys))) q
                  \<noteq> files fsys q \<longrightarrow>
               path_suffix q =
                 (if path_suffix (Path filename) \<noteq> [] then path_suffix (Path filename) else ''.png''))"
proof -
  define ext where
    "ext = (if path_suffix (Path filename) \<noteq> [] then path_suffix (Path filename) else ''.png'')"
  from ext_shape[OF ext_def] obtain rest where ext: "ext = CHR ''.'' # rest"
    and rest: "rest \<noteq> []" "CHR ''.'' \<notin> set rest" "CHR ''/'' \<notin> set rest"
    by (elim exE conjE)
  from hex_token_plain[OF assms(1)] have tok: "token \<noteq> []" "CHR ''.'' \<notin> set token"
    "CHR ''/'' \<notin> set token" by simp_all
  have name: "path_suffix (joinpath save_dir (token @ ext)) = ext"
  proof -
    have "joinpath save_dir (token @ ext)
          = \<lparr>root = root save_dir, parts = parts save_dir @ [token @ CHR ''.'' # rest]\<rparr>"
      using join_local_name[OF tok(1) tok(3) rest(3)] ext by simp
    then show ?thesis
      using suffix_local_name[OF tok(1) tok(2) rest(1) rest(2)] ext by simp
  qed
  show ?thesis
    unfolding ext_def[symmetric]
  proof (intro conjI impI allI)
    assume ret: "fst (download_image filename subfolder host save_dir reply token fsys) = Inr local_path"
    have "local_path = joinpath save_dir (token @ ext)"
      using download_image_returns[OF ret] by (simp add: ext_def)
    then show "path_suffix local_path = ext" by (simp add: name)
    from download_image_saved[OF ret] obtain r where "reply = Inr r"
      and "files (snd (snd (download_image filename subfolder host save_dir reply token fsys)))
             local_path = Some (content r)"
      by (elim exE conjE)
    then show "\<exists>r. reply = Inr r \<and>
               files (snd (snd (download_image filename subfolder host save_dir reply token fsys)))
                 local_path = Some (content r)"
      by (intro exI conjI)
    fix q
    assume "q \<noteq> local_path"
    with download_image_saved[OF ret]
    show "files (snd (snd (download_image filename subfolder host save_dir reply token fsys))) q
            = files fsys q"
      by (elim exE conjE) simp
  next
    fix q
    assume "files (snd (snd (download_image filename subfolder host save_dir reply token fsys))) q
              \<noteq> files fsys q"
    then have "q = joinpath save_dir (token @ ext)"
      using download_image_writes[of filename subfolder host save_dir reply token fsys q]
      by (simp add: ext_def)
    then show "path_suffix q = ext" by (simp add: name)
  qed
qed

theorem C7_extension_witness:
  "hex_token ''0123456789abcdef0123456789abcdef''
   \<and> fst (download_image ''result'' [] ''http://localhost:8188'' (Path ''./outputs'')
            (Inr \<lparr>status_code = 200, body_json = None, content = ''bytes'', stream_error = None\<rparr>)
            ''0123456789abcdef0123456789abcdef'' \<lparr>dirs = {}, files = Map.empty\<rparr>)
       = Inr \<lparr>root = [], parts = [''outputs'', ''0123456789abcdef0123456789abcdef.png'']\<rparr>
   \<and> path_suffix \<lparr>root = [], parts = [''outputs'', ''0123456789abcdef0123456789abcdef.png'']\<rparr> = ''.png''
   \<and> files (snd (snd (download_image ''result'' [] ''http://localhost:8188'' (Path ''./outputs'')
            (Inr \<lparr>status_code = 200, body_json = None, content = ''bytes'', stream_error = None\<rparr>)
            ''0123456789abcdef0123456789abcdef'' \<lparr>dirs = {}, files = Map.empty\<rparr>)))
         \<lparr>root = [], parts = [''outputs'', ''0123456789abcdef0123456789abcdef.png'']\<rparr> = Some ''bytes''
   \<and> fst (download_image ''sub/photo.jpg'' [] ''http://localhost:8188'' (Path ''./outputs'')
            (Inr \<lparr>status_code = 200, body_json = None, content = ''bytes'', stream_error = None\<rparr>)
            ''0123456789abcdef0123456789abcdef'' \<lparr>dirs = {}, files = Map.empty\<rparr>)
       = Inr \<lparr>root = [], parts = [''outputs'', ''0123456789abcdef0123456789abcdef.jpg'']\<rparr>
   \<and> path_suffix \<lparr>root = [], parts = [''outputs'', ''0123456789abcdef0123456789abcdef.jpg'']\<rparr> = ''.jpg''
   \<and> files (snd (snd (download_image ''sub/photo.jpg'' [] ''http://localhost:8188'' (Path ''./outputs'')
            (Inr \<lparr>status_code = 200, body_json = None, content = ''bytes'', stream_error = None\<rparr>)
            ''0123456789abcdef0123456789abcdef'' \<lparr>dirs = {}, files = Map.empty\<rparr>)))
         \<lparr>root = [], parts = [''outputs'', ''0123456789abcdef0123456789abcdef.jpg'']\<rparr> = Some ''bytes''"
proof -
  let ?r = "\<lparr>status_code = 200, body_json = None, content = ''bytes'', stream_error = None\<rparr>"
  let ?D1 = "download_image ''result'' [] ''http://localhost:8188'' (Path ''./outputs'')
            (Inr ?r) ''0123456789abcdef0123456789abcdef'' \<lparr>dirs = {}, files = Map.empty\<rparr>"
  let ?D2 = "download_image ''sub/photo.jpg'' [] ''http://localhost:8188'' (Path ''./outputs'')
            (Inr ?r) ''0123456789abcdef0123456789abcdef'' \<lparr>dirs = {}, files = Map.empty\<rparr>"
  let ?p1 = "\<lparr>root = [], parts = [''outputs'', ''0123456789abcdef0123456789abcdef.png'']\<rparr>"
  let ?p2 = "\<lparr>root = [], parts = [''outputs'', ''0123456789abcdef0123456789abcdef.jpg'']\<rparr>"
  have d1: "fst ?D1 = Inr ?p1"
    using download_example[OF hex_example, of "''.png''" "''result''"] by (simp add: suffix_result)
  have d2: "fst ?D2 = Inr ?p2"
    using download_example[OF hex_example, of "''.jpg''" "''sub/photo.jpg''"] by (simp add: suffix_photo)
  note c1 = C7_extension[OF hex_example, THEN conjunct1, rule_format, OF d1]
  note c2 = C7_extension[OF hex_example, THEN conjunct1, rule_format, OF d2]
  have s1: "path_suffix ?p1 = ''.png''"
    using c1[THEN conjunct1] by (simp add: suffix_result)
  have s2: "path_suffix ?p2 = ''.jpg''"
    using c2[THEN conjunct1] by (simp add: suffix_photo)
  have f1: "files (snd (snd ?D1)) ?p1 = Some ''bytes''"
    using c1[THEN conjunct2, THEN conjunct1] by simp
  have f2: "files (snd (snd ?D2)) ?p2 = Some ''bytes''"
    using c2[THEN conjunct2, THEN conjunct1] by simp
  from hex_example d1 s1 f1 d2 s2 f2 show ?thesis by (intro conjI)
qed

text \<open>
  Claim C10. The path that the fetcher returns is a direct child of the output
  directory: its components are those of the directory followed by one name, the
  32-digit token and the extension, and that name contains no slash. The extension is
  \<^verbatim>\<open>.png\<close> or the suffix of the last component of the remote filename, so no directory of
  the remote filename is part of the local path.
\<close>

theorem C10_direct_child:
  assumes "hex_token token"
    and "fst (download_image filename subfolder host save_dir reply token fsys) = Inr local_path"
  shows "\<exists>ext. root local_path = root save_dir \<and>
           parts local_path = parts save_dir @ [token @ ext] \<and>
           length token = 32 \<and> list_all is_hex token \<and>
           CHR ''/'' \<notin> set (token @ ext) \<and>
           (ext = ''.png'' \<or> ext = path_suffix (Path filename))"
proof -
  define ext where
    "ext = (if path_suffix (Path filename) \<noteq> [] then path_suffix (Path filename) else ''.png'')"
  from ext_shape[OF ext_def] obtain rest where ext: "ext = CHR ''.'' # rest"
    and rest: "rest \<noteq> []" "CHR ''.'' \<notin> set rest" "CHR ''/'' \<notin> set rest"
    by (elim exE conjE)
  from hex_token_plain[OF assms(1)] have tok: "token \<noteq> []" "CHR ''.'' \<notin> set token"
    "CHR ''/'' \<notin> set token" by simp_all
  have "local_path = joinpath save_dir (token @ ext)"
    using download_image_returns[OF assms(2)] by (simp add: ext_def)
  then have lp: "local_path = \<lparr>root = root save_dir, parts = parts save_dir @ [token @ ext]\<rparr>"
    using join_local_name[OF tok(1) tok(3) rest(3)] ext by simp
  have "CHR ''/'' \<notin> set (token @ ext)" using tok(3) rest(3) ext by simp
  moreover have "ext = ''.png'' \<or> ext = path_suffix (Path filename)"
    by (simp add: ext_def)
  moreover have "length token = 32 \<and> list_all is_hex token"
    using assms(1) by (simp add: hex_token_def)
  ultimately show ?thesis using lp by auto
qed

theorem C10_direct_child_witness:
  "hex_token ''0123456789abcdef0123456789abcdef''
   \<and> fst (download_image ''sub/photo.jpg'' [] ''http://localhost:8188'' (Path ''./outputs'')
            (Inr \<lparr>status_code = 200, body_json = None, content = ''bytes'', stream_error = None\<rparr>)
            ''0123456789abcdef0123456789abcdef'' \<lparr>dirs = {}, files = Map.empty\<rparr>)
       = Inr \<lparr>root = [], parts = [''outputs'', ''0123456789abcdef0123456789abcdef.jpg'']\<rparr>
   \<and> (\<exists>ext. [''outputs'', ''0123456789abcdef0123456789abcdef.jpg'']
             = parts (Path ''./outputs'') @ [''0123456789abcdef0123456789abcdef'' @ ext] \<and>
            CHR ''/'' \<notin> set (''0123456789abcdef0123456789abcdef'' @ ext))"
proof -
  have d2: "fst (download_image ''sub/photo.jpg'' [] ''http://localhost:8188'' (Path ''./outputs'')
            (Inr \<lparr>status_code = 200, body_json = None, content = ''bytes'', stream_error = None\<rparr>)
            ''0123456789abcdef0123456789abcdef'' \<lparr>dirs = {}, files = Map.empty\<rparr>)
       = Inr \<lparr>root = [], parts = [''outputs'', ''0123456789abcdef0123456789abcdef.jpg'']\<rparr>"
    using download_example[OF hex_example, of "''.jpg''" "''sub/photo.jpg''"] by (simp add: suffix_photo)
  from C10_direct_child[OF hex_example d2]
  have "\<exists>ext. [''outputs'', ''0123456789abcdef0123456789abcdef.jpg'']
             = parts (Path ''./outputs'') @ [''0123456789abcdef0123456789abcdef'' @ ext] \<and>
            CHR ''/'' \<notin> set (''0123456789abcdef0123456789abcdef'' @ ext)"
    by auto
  with hex_example d2 show ?thesis by (intro conjI)
qed

text \<open>
  Claim C9, as stated, fails. The response is streamed, so the connection can break while
  the body is read, after the directory has been made and the file opened: the fetcher then
  raises with the directory and a partial file left behind. And a response whose status is
  not a success but also not from 400 to 599 passes the status check and is saved.
\<close>

theorem C9_counterexample:
  "fst (download_image ''img.png'' [] ''http://localhost:8188'' (Path ''./outputs'')
          (Inr \<lparr>status_code = 200, body_json = None, content = ''par'',
                stream_error = Some ChunkedEncodingError\<rparr>)
          ''0123456789abcdef0123456789abcdef'' \<lparr>dirs = {}, files = Map.empty\<rparr>)
     = Inl (RequestException ChunkedEncodingError)
   \<and> Path ''./outputs'' \<in> dirs (snd (snd (download_image ''img.png'' [] ''http://localhost:8188''
          (Path ''./outputs'')
          (Inr \<lparr>status_code = 200, body_json = None, content = ''par'',
                stream_error = Some ChunkedEncodingError\<rparr>)
          ''0123456789abcdef0123456789abcdef'' \<lparr>dirs = {}, files = Map.empty\<rparr>)))
   \<and> files (snd (snd (download_image ''img.png'' [] ''http://localhost:8188'' (Path ''./outputs'')
          (Inr \<lparr>status_code = 200, body_json = None, content = ''par'',
                stream_error = Some ChunkedEncodingError\<rparr>)
          ''0123456789abcdef0123456789abcdef'' \<lparr>dirs = {}, files = Map.empty\<rparr>)))
        \<lparr>root = [], parts = [''outputs'', ''0123456789abcdef0123456789abcdef.png'']\<rparr> = Some ''par''
   \<and> fst (download_image ''img.png'' [] ''http://localhost:8188'' (Path ''./outputs'')
          (Inr \<lparr>status_code = 300, body_json = None, content = ''choices'', stream_error = None\<rparr>)
          ''0123456789abcdef0123456789abcdef'' \<lparr>dirs = {}, files = Map.empty\<rparr>)
     = Inr \<lparr>root = [], parts = [''outputs'', ''0123456789abcdef0123456789abcdef.png'']\<rparr>
   \<and> files (snd (snd (download_image ''img.png'' [] ''http://localhost:8188'' (Path ''./outputs'')
          (Inr \<lparr>status_code = 300, body_json = None, content = ''choices'', stream_error = None\<rparr>)
          ''0123456789abcdef0123456789abcdef'' \<lparr>dirs = {}, files = Map.empty\<rparr>)))
        \<lparr>root = [], parts = [''outputs'', ''0123456789abcdef0123456789abcdef.png'']\<rparr> = Some ''choices''"
proof -
  let ?broken = "\<lparr>status_code = 200, body_json = None, content = ''par'',
                stream_error = Some ChunkedEncodingError\<rparr>"
  let ?other = "\<lparr>status_code = 300, body_json = None, content = ''choices'', stream_error = None\<rparr>"
  have e: "''.png'' = (if path_suffix (Path ''img.png'') \<noteq> [] then path_suffix (Path ''img.png'')
                       else ''.png'')"
    by (simp add: suffix_img)
  have s1: "\<not> (400 \<le> status_code ?broken \<and> status_code ?broken < 600)" by simp
  have s2: "\<not> (400 \<le> status_code ?other \<and> status_code ?other < 600)" by simp
  note r1 = download_example_run[OF hex_example e s1]
  note r2 = download_example_run[OF hex_example e s2]
  show ?thesis
    unfolding r1 r2 by (simp add: Path_outputs)
qed

text \<open>
  Claim C9, amended. When the GET of the image fails before the body is read, because
  \<^verbatim>\<open>requests.get\<close> raises or because the status check rejects the response (a status from
  400 to 599), the fetcher raises that error and the file system is what it was: no
  directory has been created and no file written.
\<close>

theorem C9_failed_download_leaves_files:
  "(reply = Inl e \<longrightarrow>
      fst (download_image filename subfolder host save_dir reply token fsys)
        = Inl (RequestException e) \<and>
      snd (snd (download_image filename subfolder host save_dir reply token fsys)) = fsys)
   \<and> (reply = Inr r \<and> 400 \<le> status_code r \<and> status_code r < 600 \<longrightarrow>
      fst (download_image filename subfolder host save_dir reply token fsys)
        = Inl (HTTPError (status_code r)) \<and>
      snd (snd (download_image filename subfolder host save_dir reply token fsys)) = fsys)"
  by (simp add: download_image_def received_def raise_for_status_def bind_def Let_def)

theorem C9_failed_download_leaves_files_witness:
  "download_image ''img.png'' [] ''http://localhost:8188/'' (Path ''./outputs'')
       (Inl ConnectionError) ''0123456789abcdef0123456789abcdef'' \<lparr>dirs = {}, files = Map.empty\<rparr>
     = (Inl (RequestException ConnectionError),
        [HttpGet ''http://localhost:8188/view?filename=img.png&type=output&subfolder=''],
        \<lparr>dirs = {}, files = Map.empty\<rparr>)
   \<and> download_image ''img.png'' [] ''http://localhost:8188/'' (Path ''./outputs'')
       (Inr \<lparr>status_code = 404, body_json = None, content = ''not found'', stream_error = None\<rparr>)
       ''0123456789abcdef0123456789abcdef'' \<lparr>dirs = {}, files = Map.empty\<rparr>
     = (Inl (HTTPError 404),
        [HttpGet ''http://localhost:8188/view?filename=img.png&type=output&subfolder=''],
        \<lparr>dirs = {}, files = Map.empty\<rparr>)"
proof -
  let ?fs = "\<lparr>dirs = {}, files = Map.empty\<rparr> :: filesystem"
  let ?r = "\<lparr>status_code = 404, body_json = None, content = ''not found'', stream_error = None\<rparr>"
  let ?d1 = "download_image ''img.png'' [] ''http://localhost:8188/'' (Path ''./outputs'')
       (Inl ConnectionError) ''0123456789abcdef0123456789abcdef'' ?fs"
  let ?d2 = "download_image ''img.png'' [] ''http://localhost:8188/'' (Path ''./outputs'')
       (Inr ?r) ''0123456789abcdef0123456789abcdef'' ?fs"
  have a: "fst ?d1 = Inl (RequestException ConnectionError) \<and> snd (snd ?d1) = ?fs"
    using C9_failed_download_leaves_files[of "Inl ConnectionError" ConnectionError "''img.png''" "[]"
        "''http://localhost:8188/''" "Path ''./outputs''" "''0123456789abcdef0123456789abcdef''" ?fs]
    by simp
  have b: "fst ?d2 = Inl (HTTPError 404) \<and> snd (snd ?d2) = ?fs"
    using C9_failed_download_leaves_files[of "Inr ?r" _ "''img.png''" "[]"
        "''http://localhost:8188/''" "Path ''./outputs''" "''0123456789abcdef0123456789abcdef''" ?fs ?r]
    by simp
  have t1: "fst (snd ?d1) = [HttpGet ''http://localhost:8188/view?filename=img.png&type=output&subfolder='']"
    by (simp add: download_image_def received_def bind_def rstrip_def)
  have t2: "fst (snd ?d2) = [HttpGet ''http://localhost:8188/view?filename=img.png&type=output&subfolder='']"
    by (simp add: download_image_def received_def bind_def rstrip_def raise_for_status_def)
  from a t1 have "?d1 = (Inl (RequestException ConnectionError),
        [HttpGet ''http://localhost:8188/view?filename=img.png&type=output&subfolder=''], ?fs)"
    by (metis prod.collapse)
  moreover from b t2 have "?d2 = (Inl (HTTPError 404),
        [HttpGet ''http://localhost:8188/view?filename=img.png&type=output&subfolder=''], ?fs)"
    by (metis prod.collapse)
  ultimately show ?thesis by (intro conjI)
qed

section \<open>Properties of the completion poller\<close>

lemma fetched_not_timeout: "fetched rep \<noteq> Inl TimeoutError"
  by (auto simp: fetched_def received_def raise_for_status_def response_json_def bind_def
      split: sum.splits option.splits)

lemma job_absent_not_timeout: "job_absent hist pid \<noteq> Inl TimeoutError"
  by (cases hist) (auto simp: job_absent_def bind_def)

lemma py_get_not_timeout: "py_get x k d \<noteq> Inl TimeoutError"
  by (cases x) auto

lemma py_getitem_not_timeout: "py_getitem x k \<noteq> Inl TimeoutError"
  by (cases x) (auto split: option.splits)

lemma completed_flag_not_timeout: "completed_flag data \<noteq> Inl TimeoutError"
  using py_get_not_timeout
  by (auto simp: completed_flag_def bind_def split: sum.splits)

lemma time_sleep_not_timeout: "time_sleep secs \<noteq> Inl TimeoutError"
  by (cases secs) (auto simp: time_sleep_def)

lemma py_getitem_Inr:
  "py_getitem x k = Inr v \<longleftrightarrow> (\<exists>h. x = JObj h \<and> map_of h k = Some v)"
  by (cases x) (auto split: option.splits)

text \<open>The lengths that \<^verbatim>\<open>time.sleep\<close> accepts.\<close>

lemma time_sleep_accepts:
  "time_sleep secs = Inr () \<longleftrightarrow> (\<exists>x. secs = Finite x \<and> 0 \<le> x \<and> x * 10 ^ 9 < 2 ^ 63)"
  by (cases secs) (auto simp: time_sleep_def)

text \<open>
  The flag that lets the loop return, in terms of the record: the entry of the job is a
  mapping, its \<^verbatim>\<open>"status"\<close> is a mapping, and the value at \<^verbatim>\<open>"completed"\<close> there is true for
  Python.
\<close>

lemma completed_flag_true:
  "(\<exists>flag. completed_flag data = Inr flag \<and> truthy flag) \<longleftrightarrow>
   (\<exists>d st flag. data = JObj d \<and> map_of d ''status'' = Some (JObj st) \<and>
      map_of st ''completed'' = Some flag \<and> truthy flag)"
proof
  assume "\<exists>flag. completed_flag data = Inr flag \<and> truthy flag"
  then obtain flag where c: "completed_flag data = Inr flag" and t: "truthy flag" by (elim exE conjE)
  from c obtain d where d: "data = JObj d"
    by (cases data) (simp_all add: completed_flag_def bind_def)
  define s where "s = (case map_of d ''status'' of None \<Rightarrow> JObj [] | Some v \<Rightarrow> v)"
  from c d have c2: "py_get s ''completed'' (JBool False) = Inr flag"
    by (simp add: completed_flag_def bind_def s_def)
  then obtain st where st: "s = JObj st" by (cases s) simp_all
  from c2 st have f: "flag = (case map_of st ''completed'' of None \<Rightarrow> JBool False | Some v \<Rightarrow> v)"
    by simp
  with t have m: "map_of st ''completed'' = Some flag"
    by (cases "map_of st ''completed''") simp_all
  then have "st \<noteq> []" by auto
  with st have "map_of d ''status'' = Some (JObj st)"
    by (cases "map_of d ''status''") (simp_all add: s_def)
  with d m t show "\<exists>d st flag. data = JObj d \<and> map_of d ''status'' = Some (JObj st) \<and>
      map_of st ''completed'' = Some flag \<and> truthy flag"
    by (intro exI conjI)
next
  assume "\<exists>d st flag. data = JObj d \<and> map_of d ''status'' = Some (JObj st) \<and>
      map_of st ''completed'' = Some flag \<and> truthy flag"
  then obtain d st flag where "data = JObj d" "map_of d ''status'' = Some (JObj st)"
    "map_of st ''completed'' = Some flag" "truthy flag" by (elim exE conjE)
  then have "completed_flag data = Inr flag \<and> truthy flag"
    by (simp add: completed_flag_def bind_def)
  then show "\<exists>flag. completed_flag data = Inr flag \<and> truthy flag" ..
qed

text \<open>The flag that keeps the loop waiting, in terms of the record.\<close>

lemma completed_flag_false:
  "(\<exists>flag. completed_flag data = Inr flag \<and> \<not> truthy flag) \<longleftrightarrow>
   (\<exists>d. data = JObj d \<and>
      (map_of d ''status'' = None \<or>
       (\<exists>st. map_of d ''status'' = Some (JObj st) \<and>
          (map_of st ''completed'' = None \<or>
           (\<exists>flag. map_of st ''completed'' = Some flag \<and> \<not> truthy flag)))))"
proof (cases data)
  case (JObj d)
  show ?thesis
  proof (cases "map_of d ''status''")
    case None
    with JObj show ?thesis by (simp add: completed_flag_def bind_def)
  next
    case (Some s)
    show ?thesis
    proof (cases s)
      case (JObj st)
      with Some \<open>data = JObj d\<close> show ?thesis
        by (cases "map_of st ''completed''") (simp_all add: completed_flag_def bind_def)
    qed (use Some \<open>data = JObj d\<close> in \<open>simp_all add: completed_flag_def bind_def\<close>)
  qed
qed (simp_all add: completed_flag_def bind_def)

lemma waiting_record:
  assumes "rep = Inr r" and "\<not> (400 \<le> status_code r \<and> status_code r < 600)"
    and "body_json r = Some (JObj h)"
  shows "waiting pid rep \<longleftrightarrow>
           (map_of h pid = None \<or>
            (\<exists>d. map_of h pid = Some (JObj d) \<and>
               (map_of d ''status'' = None \<or>
                (\<exists>st. map_of d ''status'' = Some (JObj st) \<and>
                   (map_of st ''completed'' = None \<or>
                    (\<exists>flag. map_of st ''completed'' = Some flag \<and> \<not> truthy flag))))))"
proof -
  have f: "fetched rep = Inr (JObj h)"
    using assms by (simp add: fetched_def received_def raise_for_status_def response_json_def bind_def)
  show ?thesis
  proof (cases "map_of h pid")
    case None
    then have "job_absent (JObj h) pid = Inr True" by (simp add: job_absent_def bind_def)
    with f None show ?thesis by (simp add: waiting_def)
  next
    case (Some data)
    then have "h \<noteq> []" by auto
    with Some have "job_absent (JObj h) pid = Inr False" by (simp add: job_absent_def bind_def)
    with f Some have "waiting pid rep \<longleftrightarrow> (\<exists>flag. completed_flag data = Inr flag \<and> \<not> truthy flag)"
      by (cases "completed_flag data") (simp_all add: waiting_def bind_def)
    also have "\<dots> \<longleftrightarrow> (\<exists>d. data = JObj d \<and>
      (map_of d ''status'' = None \<or>
       (\<exists>st. map_of d ''status'' = Some (JObj st) \<and>
          (map_of st ''completed'' = None \<or>
           (\<exists>flag. map_of st ''completed'' = Some flag \<and> \<not> truthy flag)))))"
      by (rule completed_flag_false)
    finally show ?thesis using Some by simp
  qed
qed

text \<open>One turn of the loop, by the kind of the reply.\<close>

lemma turn_goes_on:
  assumes "waiting pid rep" and "fsub now t0 \<le> real_of_int timeout" and "time_sleep poll = Inr ()"
  shows "wait_loop fsub pid url poll timeout t0 ((rep, now) # later)
         = (fst (wait_loop fsub pid url poll timeout t0 later),
            HttpGet url # Sleep poll # snd (wait_loop fsub pid url poll timeout t0 later))"
  using assms
  by (auto simp: waiting_def bind_def split: sum.splits bool.splits prod.splits)

lemma turn_sleep_refused:
  assumes "waiting pid rep" and "fsub now t0 \<le> real_of_int timeout" and "time_sleep poll = Inl e"
  shows "wait_loop fsub pid url poll timeout t0 ((rep, now) # later) = (Raised e, [HttpGet url])"
  using assms
  by (auto simp: waiting_def bind_def split: sum.splits bool.splits prod.splits)

lemma turn_times_out:
  assumes "waiting pid rep" and "real_of_int timeout < fsub now t0"
  shows "wait_loop fsub pid url poll timeout t0 ((rep, now) # later)
         = (Raised TimeoutError, [HttpGet url])"
  using assms
  by (auto simp: waiting_def bind_def split: sum.splits bool.splits prod.splits)

lemma turn_returns:
  assumes "rep = Inr r" and "\<not> (400 \<le> status_code r \<and> status_code r < 600)"
    and "body_json r = Some (JObj h)" and "map_of h pid = Some data"
    and "data = JObj d" and "map_of d ''status'' = Some (JObj st)"
    and "map_of st ''completed'' = Some flag" and "truthy flag"
  shows "wait_loop fsub pid url poll timeout t0 ((rep, now) # later) = (Returned data, [HttpGet url])"
proof -
  have f: "fetched rep = Inr (JObj h)"
    using assms(1-3) by (simp add: fetched_def received_def raise_for_status_def response_json_def bind_def)
  have "h \<noteq> []" using assms(4) by auto
  then have a: "job_absent (JObj h) pid = Inr False"
    using assms(4) by (simp add: job_absent_def bind_def)
  have c: "completed_flag data = Inr flag"
    using assms(5-7) by (simp add: completed_flag_def bind_def)
  show ?thesis using f a assms(4,8) c by (simp add: bind_def)
qed

lemma turn_decides:
  assumes "\<not> waiting pid rep"
  shows "(\<exists>e. e \<noteq> TimeoutError \<and>
            wait_loop fsub pid url poll timeout t0 ((rep, now) # later) = (Raised e, [HttpGet url]))
         \<or> (\<exists>data r h d st flag. rep = Inr r \<and> \<not> (400 \<le> status_code r \<and> status_code r < 600) \<and>
              body_json r = Some (JObj h) \<and> map_of h pid = Some data \<and>
              data = JObj d \<and> map_of d ''status'' = Some (JObj st) \<and>
              map_of st ''completed'' = Some flag \<and> truthy flag \<and>
              wait_loop fsub pid url poll timeout t0 ((rep, now) # later)
                = (Returned data, [HttpGet url]))"
proof (cases "fetched rep")
  case (Inl e)
  then have "e \<noteq> TimeoutError" using fetched_not_timeout[of rep] by auto
  with Inl show ?thesis by simp
next
  case (Inr hist)
  note hist = this
  show ?thesis
  proof (cases "job_absent hist pid")
    case (Inl e)
    then have "e \<noteq> TimeoutError" using job_absent_not_timeout[of hist pid] by auto
    with Inl hist show ?thesis by simp
  next
    case (Inr absent)
    with assms hist have na: "job_absent hist pid = Inr False"
      by (cases absent) (simp_all add: waiting_def)
    show ?thesis
    proof (cases "py_getitem hist pid")
      case (Inl e)
      then have "e \<noteq> TimeoutError" using py_getitem_not_timeout[of hist pid] by auto
      with Inl hist na show ?thesis by (simp add: bind_def)
    next
      case (Inr data)
      note data = this
      then have "\<exists>h. hist = JObj h \<and> map_of h pid = Some data"
        by (simp add: py_getitem_Inr)
      then obtain h where h: "hist = JObj h" and m: "map_of h pid = Some data"
        by (elim exE conjE)
      show ?thesis
      proof (cases "completed_flag data")
        case (Inl e)
        then have "e \<noteq> TimeoutError" using completed_flag_not_timeout[of data] by auto
        with Inl hist na data show ?thesis by (simp add: bind_def)
      next
        case (Inr flag0)
        with assms hist na data have t: "truthy flag0" by (simp add: waiting_def bind_def)
        with Inr have "\<exists>flag. completed_flag data = Inr flag \<and> truthy flag" by (intro exI conjI)
        then have "\<exists>d st flag. data = JObj d \<and> map_of d ''status'' = Some (JObj st) \<and>
            map_of st ''completed'' = Some flag \<and> truthy flag"
          by (simp only: completed_flag_true)
        then obtain d st flag where p: "data = JObj d" "map_of d ''status'' = Some (JObj st)"
          "map_of st ''completed'' = Some flag" "truthy flag"
          by (elim exE conjE)
        from hist h obtain r where r: "rep = Inr r"
          and s: "\<not> (400 \<le> status_code r \<and> status_code r < 600)"
          and b: "body_json r = Some (JObj h)"
          by (auto simp: fetched_def received_def raise_for_status_def response_json_def bind_def
              split: sum.splits option.splits if_splits)
        have "wait_loop fsub pid url poll timeout t0 ((rep, now) # later)
              = (Returned data, [HttpGet url])"
          using r s b m p by (rule turn_returns)
        with r s b m p have "\<exists>data r h d st flag. rep = Inr r \<and>
              \<not> (400 \<le> status_code r \<and> status_code r < 600) \<and>
              body_json r = Some (JObj h) \<and> map_of h pid = Some data \<and>
              data = JObj d \<and> map_of d ''status'' = Some (JObj st) \<and>
              map_of st ''completed'' = Some flag \<and> truthy flag \<and>
              wait_loop fsub pid url poll timeout t0 ((rep, now) # later)
                = (Returned data, [HttpGet url])"
          by (intro exI conjI)
        then show ?thesis ..
      qed
    qed
  qed
qed

text \<open>The turns that go on: each sends a GET and sleeps for the poll interval.\<close>

lemma wait_loop_goes_on:
  assumes "\<forall>(rep, now) \<in> set earlier. waiting pid rep \<and> fsub now t0 \<le> real_of_int timeout"
    and "earlier = [] \<or> time_sleep poll = Inr ()"
  shows "wait_loop fsub pid url poll timeout t0 (earlier @ later)
         = (fst (wait_loop fsub pid url poll timeout t0 later),
            concat (map (\<lambda>_. [HttpGet url, Sleep poll]) earlier)
              @ snd (wait_loop fsub pid url poll timeout t0 later))"
  using assms
proof (induction earlier)
  case Nil
  then show ?case by simp
next
  case (Cons ob earlier)
  obtain rep now where ob: "ob = (rep, now)" by (cases ob)
  with Cons.prems have w: "waiting pid rep" and t: "fsub now t0 \<le> real_of_int timeout" by simp_all
  from Cons.prems(2) have sl: "time_sleep poll = Inr ()" by simp
  from Cons sl have IH: "wait_loop fsub pid url poll timeout t0 (earlier @ later)
         = (fst (wait_loop fsub pid url poll timeout t0 later),
            concat (map (\<lambda>_. [HttpGet url, Sleep poll]) earlier)
              @ snd (wait_loop fsub pid url poll timeout t0 later))" by simp
  show ?case
    unfolding ob append_Cons turn_goes_on[where fsub = fsub and now = now and ?t0.0 = t0, OF w t sl] IH
    by simp
qed

text \<open>Either every turn leaves the loop waiting within the timeout, or there is a first one that does not.\<close>

lemma first_deciding_turn:
  "(\<forall>(rep, now) \<in> set obs. waiting pid rep \<and> fsub now t0 \<le> real_of_int timeout)
   \<or> (\<exists>earlier rep now later. obs = earlier @ (rep, now) # later \<and>
         (\<forall>(rep', now') \<in> set earlier. waiting pid rep' \<and> fsub now' t0 \<le> real_of_int timeout) \<and>
         \<not> (waiting pid rep \<and> fsub now t0 \<le> real_of_int timeout))"
proof (cases "\<exists>x \<in> set obs. \<not> (case x of (rep, now) \<Rightarrow> waiting pid rep \<and> fsub now t0 \<le> real_of_int timeout)")
  case True
  from split_list_first_prop[OF True] obtain earlier x later where
    d: "obs = earlier @ x # later"
    and x: "\<not> (case x of (rep, now) \<Rightarrow> waiting pid rep \<and> fsub now t0 \<le> real_of_int timeout)"
    and e: "\<forall>y \<in> set earlier. \<not> \<not> (case y of (rep, now) \<Rightarrow> waiting pid rep \<and> fsub now t0 \<le> real_of_int timeout)"
    by blast
  obtain rep now where xx: "x = (rep, now)" by (cases x)
  from x xx have nx: "\<not> (waiting pid rep \<and> fsub now t0 \<le> real_of_int timeout)" by simp
  from e have ee: "\<forall>(rep', now') \<in> set earlier. waiting pid rep' \<and> fsub now' t0 \<le> real_of_int timeout"
    by simp
  from d xx have "obs = earlier @ (rep, now) # later" by simp
  with ee nx have "\<exists>earlier rep now later. obs = earlier @ (rep, now) # later \<and>
         (\<forall>(rep', now') \<in> set earlier. waiting pid rep' \<and> fsub now' t0 \<le> real_of_int timeout) \<and>
         \<not> (waiting pid rep \<and> fsub now t0 \<le> real_of_int timeout)"
    by (intro exI conjI)
  then show ?thesis ..
next
  case False
  then show ?thesis by auto
qed

text \<open>
  Claim C2, as stated, fails in two places. The loop returns a record whose
  \<^verbatim>\<open>status.completed\<close> is not \<^verbatim>\<open>true\<close> but only true for Python's \<^verbatim>\<open>not\<close>, such as the
  string \<^verbatim>\<open>"false"\<close>. And with a poll interval that \<^verbatim>\<open>time.sleep\<close> refuses, such as
  \<open>-1\<close>, a job that is absent within the timeout is not retried: the loop raises
  \<^verbatim>\<open>ValueError\<close>, neither returning nor timing out.
\<close>

theorem C2_counterexample:
  "wait_until_done (-) ''abc'' ''http://localhost:8188'' (Finite 2) 300 100
     [(Inr \<lparr>status_code = 200, body_json = Some (JObj [(''abc'', JObj [(''status'',
          JObj [(''completed'', JStr ''false'')])])]), content = [], stream_error = None\<rparr>, 101)]
   = (Returned (JObj [(''status'', JObj [(''completed'', JStr ''false'')])]),
      [HttpGet ''http://localhost:8188/history/abc''])
   \<and> wait_until_done (-) ''abc'' ''http://localhost:8188'' (Finite (- 1)) 300 100
     [(Inr \<lparr>status_code = 200, body_json = Some (JObj []), content = [], stream_error = None\<rparr>, 101),
      (Inr \<lparr>status_code = 200, body_json = Some (JObj [(''abc'', JObj [(''status'',
          JObj [(''completed'', JBool True)])])]), content = [], stream_error = None\<rparr>, 103)]
   = (Raised (ValueError SleepNegative), [HttpGet ''http://localhost:8188/history/abc''])"
  by (simp add: wait_until_done_def fetched_def received_def raise_for_status_def response_json_def
      bind_def job_absent_def completed_flag_def time_sleep_def rstrip_def)

text \<open>
  Claim C2, amended. Over any sequence of observed history responses: the poller returns
  a record only when a response is a mapping that contains the job identifier as a key and
  the value at \<^verbatim>\<open>status.completed\<close> of that entry is true for Python (for a boolean flag,
  \<^verbatim>\<open>true\<close>), every earlier response having left it waiting within the timeout; it then
  returns that entry at once, after the GET that showed it. It raises \<^verbatim>\<open>TimeoutError\<close>
  exactly when, after turns that all left it waiting within the timeout, a turn leaves it
  waiting with an elapsed time, the float \<^verbatim>\<open>time.time() - t0\<close>, greater than the timeout.
  With a poll interval that \<^verbatim>\<open>time.sleep\<close> accepts (a finite number, not negative, of less
  than \<open>2\<^sup>6\<^sup>3\<close> nanoseconds), each turn that leaves it waiting within the timeout is followed
  by a sleep of that interval and the next GET; with any other interval such a turn raises
  what \<^verbatim>\<open>time.sleep\<close> raises. For a response that is a mapping, waiting means that the
  identifier is absent, or that its entry is a mapping without \<^verbatim>\<open>"status"\<close>, or with a
  \<^verbatim>\<open>"status"\<close> mapping where \<^verbatim>\<open>"completed"\<close> is absent or not true for Python.
\<close>

theorem C2_poller:
  "(fst (wait_until_done fsub pid host poll timeout t0 obs) = Returned data \<longrightarrow>
      (\<exists>earlier rep now later r h d st flag.
         obs = earlier @ (rep, now) # later \<and>
         (\<forall>(rep', now') \<in> set earlier. waiting pid rep' \<and> fsub now' t0 \<le> real_of_int timeout) \<and>
         (earlier = [] \<or> time_sleep poll = Inr ()) \<and>
         rep = Inr r \<and> \<not> (400 \<le> status_code r \<and> status_code r < 600) \<and>
         body_json r = Some (JObj h) \<and> map_of h pid = Some data \<and>
         data = JObj d \<and> map_of d ''status'' = Some (JObj st) \<and>
         map_of st ''completed'' = Some flag \<and> truthy flag))
   \<and> (\<forall>earlier rep now later r h d st flag.
         obs = earlier @ (rep, now) # later \<and>
         (\<forall>(rep', now') \<in> set earlier. waiting pid rep' \<and> fsub now' t0 \<le> real_of_int timeout) \<and>
         (earlier = [] \<or> time_sleep poll = Inr ()) \<and>
         rep = Inr r \<and> \<not> (400 \<le> status_code r \<and> status_code r < 600) \<and>
         body_json r = Some (JObj h) \<and> map_of h pid = Some data \<and>
         data = JObj d \<and> map_of d ''status'' = Some (JObj st) \<and>
         map_of st ''completed'' = Some flag \<and> truthy flag \<longrightarrow>
         wait_until_done fsub pid host poll timeout t0 obs
           = (Returned data,
              concat (map (\<lambda>_. [HttpGet (rstrip CHR ''/'' host @ ''/history/'' @ pid), Sleep poll]) earlier)
                @ [HttpGet (rstrip CHR ''/'' host @ ''/history/'' @ pid)]))
   \<and> (fst (wait_until_done fsub pid host poll timeout t0 obs) = Raised TimeoutError \<longleftrightarrow>
      (\<exists>earlier rep now later.
         obs = earlier @ (rep, now) # later \<and>
         (\<forall>(rep', now') \<in> set earlier. waiting pid rep' \<and> fsub now' t0 \<le> real_of_int timeout) \<and>
         (earlier = [] \<or> time_sleep poll = Inr ()) \<and>
         waiting pid rep \<and> real_of_int timeout < fsub now t0))
   \<and> (\<forall>earlier later.
         obs = earlier @ later \<and>
         (\<forall>(rep', now') \<in> set earlier. waiting pid rep' \<and> fsub now' t0 \<le> real_of_int timeout) \<and>
         time_sleep poll = Inr () \<longrightarrow>
         wait_until_done fsub pid host poll timeout t0 obs
           = (fst (wait_until_done fsub pid host poll timeout t0 later),
              concat (map (\<lambda>_. [HttpGet (rstrip CHR ''/'' host @ ''/history/'' @ pid), Sleep poll]) earlier)
                @ snd (wait_until_done fsub pid host poll timeout t0 later)))
   \<and> (\<forall>rep now later e.
         waiting pid rep \<and> fsub now t0 \<le> real_of_int timeout \<and> time_sleep poll = Inl e \<longrightarrow>
         wait_until_done fsub pid host poll timeout t0 ((rep, now) # later)
           = (Raised e, [HttpGet (rstrip CHR ''/'' host @ ''/history/'' @ pid)]))
   \<and> (time_sleep poll = Inr () \<longleftrightarrow> (\<exists>x. poll = Finite x \<and> 0 \<le> x \<and> x * 10 ^ 9 < 2 ^ 63))
   \<and> (\<forall>rep r h. rep = Inr r \<and> \<not> (400 \<le> status_code r \<and> status_code r < 600) \<and>
         body_json r = Some (JObj h) \<longrightarrow>
         (waiting pid rep \<longleftrightarrow>
            (map_of h pid = None \<or>
             (\<exists>d. map_of h pid = Some (JObj d) \<and>
                (map_of d ''status'' = None \<or>
                 (\<exists>st. map_of d ''status'' = Some (JObj st) \<and>
                    (map_of st ''completed'' = None \<or>
                     (\<exists>flag. map_of st ''completed'' = Some flag \<and> \<not> truthy flag))))))))"
proof -
  define url where "url = rstrip CHR ''/'' host @ ''/history/'' @ pid"
  define W where "W = wait_loop fsub pid url poll timeout t0"
  have Wd: "wait_until_done fsub pid host poll timeout t0 = W"
    by (rule ext) (simp add: wait_until_done_def W_def url_def)
  let ?intime = "\<lambda>earlier. \<forall>(rep', now') \<in> set earlier. waiting pid rep' \<and> fsub now' t0 \<le> real_of_int timeout"
  define dn where "dn = (\<lambda>(rep :: reply) dat. \<exists>r h d st flag. rep = Inr r \<and>
         \<not> (400 \<le> status_code r \<and> status_code r < 600) \<and>
         body_json r = Some (JObj h) \<and> map_of h pid = Some dat \<and>
         dat = JObj d \<and> map_of d ''status'' = Some (JObj st) \<and>
         map_of st ''completed'' = Some flag \<and> truthy flag)"
  have goes_on: "W (earlier @ later)
      = (fst (W later), concat (map (\<lambda>_. [HttpGet url, Sleep poll]) earlier) @ snd (W later))"
    if "?intime earlier" "earlier = [] \<or> time_sleep poll = Inr ()" for earlier later
    unfolding W_def using that by (rule wait_loop_goes_on)
  have returns: "W obs = (Returned data, concat (map (\<lambda>_. [HttpGet url, Sleep poll]) earlier) @ [HttpGet url])"
    if "obs = earlier @ (rep, now) # later" "?intime earlier" "earlier = [] \<or> time_sleep poll = Inr ()"
      "rep = Inr r" "\<not> (400 \<le> status_code r \<and> status_code r < 600)" "body_json r = Some (JObj h)"
      "map_of h pid = Some data" "data = JObj d" "map_of d ''status'' = Some (JObj st)"
      "map_of st ''completed'' = Some flag" "truthy flag"
    for earlier rep now later r h d st flag
  proof -
    have "W ((rep, now) # later) = (Returned data, [HttpGet url])"
      unfolding W_def using that(4-11) by (rule turn_returns)
    then show ?thesis using goes_on[OF that(2,3), of "(rep, now) # later"] that(1) by simp
  qed
  have timeout_if: "fst (W obs) = Raised TimeoutError"
    if "obs = earlier @ (rep, now) # later" "?intime earlier" "earlier = [] \<or> time_sleep poll = Inr ()"
      "waiting pid rep" "real_of_int timeout < fsub now t0"
    for earlier rep now later
  proof -
    have "W ((rep, now) # later) = (Raised TimeoutError, [HttpGet url])"
      unfolding W_def using that(4,5)
      by (rule turn_times_out[where fsub = fsub and now = now and ?t0.0 = t0])
    then show ?thesis using goes_on[OF that(2,3), of "(rep, now) # later"] that(1) by simp
  qed
  text \<open>The first turn decides, when it does not go on.\<close>
  have first_turn:
    "(\<exists>e. e \<noteq> TimeoutError \<and> fst (W ((rep, now) # later)) = Raised e)
     \<or> (waiting pid rep \<and> real_of_int timeout < fsub now t0 \<and>
          fst (W ((rep, now) # later)) = Raised TimeoutError)
     \<or> (\<exists>dat. dn rep dat \<and> fst (W ((rep, now) # later)) = Returned dat)"
    if "\<not> (waiting pid rep \<and> fsub now t0 \<le> real_of_int timeout \<and> time_sleep poll = Inr ())"
    for rep now later
  proof (cases "waiting pid rep")
    case True
    note w = this
    show ?thesis
    proof (cases "fsub now t0 \<le> real_of_int timeout")
      case True
      with w that obtain e where e: "time_sleep poll = Inl e" by (cases "time_sleep poll") auto
      then have "e \<noteq> TimeoutError" using time_sleep_not_timeout[of poll] by auto
      moreover have "W ((rep, now) # later) = (Raised e, [HttpGet url])"
        unfolding W_def using w True e
        by (rule turn_sleep_refused[where fsub = fsub and now = now and ?t0.0 = t0])
      ultimately have "e \<noteq> TimeoutError \<and> fst (W ((rep, now) # later)) = Raised e" by simp
      then have "\<exists>e. e \<noteq> TimeoutError \<and> fst (W ((rep, now) # later)) = Raised e" ..
      then show ?thesis by (rule disjI1)
    next
      case False
      then have late: "real_of_int timeout < fsub now t0" by simp
      have "W ((rep, now) # later) = (Raised TimeoutError, [HttpGet url])"
        unfolding W_def using w late
        by (rule turn_times_out[where fsub = fsub and now = now and ?t0.0 = t0])
      with w late show ?thesis by simp
    qed
  next
    case False
    have "(\<exists>e. e \<noteq> TimeoutError \<and> W ((rep, now) # later) = (Raised e, [HttpGet url]))
         \<or> (\<exists>dat. dn rep dat \<and> W ((rep, now) # later) = (Returned dat, [HttpGet url]))"
      using turn_decides[OF False, of fsub url poll timeout t0 now later]
      unfolding W_def dn_def by (elim disjE exE conjE) (intro disjI1 exI conjI, assumption+,
          intro disjI2 exI conjI, assumption+)
    then consider (err) e where "e \<noteq> TimeoutError" "W ((rep, now) # later) = (Raised e, [HttpGet url])"
      | (ret) dat where "dn rep dat" "W ((rep, now) # later) = (Returned dat, [HttpGet url])"
      by (elim disjE exE conjE)
    then show ?thesis
    proof cases
      case err
      then have "e \<noteq> TimeoutError \<and> fst (W ((rep, now) # later)) = Raised e" by simp
      then have "\<exists>e. e \<noteq> TimeoutError \<and> fst (W ((rep, now) # later)) = Raised e" ..
      then show ?thesis by (rule disjI1)
    next
      case ret
      then have "dn rep dat \<and> fst (W ((rep, now) # later)) = Returned dat" by simp
      then have "\<exists>dat. dn rep dat \<and> fst (W ((rep, now) # later)) = Returned dat" ..
      then show ?thesis by (intro disjI2)
    qed
  qed
  text \<open>The result of the whole run.\<close>
  have decided:
    "fst (W obs) = StillPolling
     \<or> (\<exists>e. e \<noteq> TimeoutError \<and> fst (W obs) = Raised e)
     \<or> (\<exists>earlier rep now later. obs = earlier @ (rep, now) # later \<and> ?intime earlier \<and>
          (earlier = [] \<or> time_sleep poll = Inr ()) \<and>
          waiting pid rep \<and> real_of_int timeout < fsub now t0 \<and> fst (W obs) = Raised TimeoutError)
     \<or> (\<exists>earlier rep now later dat. obs = earlier @ (rep, now) # later \<and> ?intime earlier \<and>
          (earlier = [] \<or> time_sleep poll = Inr ()) \<and> dn rep dat \<and> fst (W obs) = Returned dat)"
    (is "?still \<or> ?err \<or> ?late \<or> ?ret")
  proof -
    have from_first: "?err \<or> ?late \<or> ?ret"
      if d: "obs = earlier @ (rep, now) # later" and i: "?intime earlier"
        and s: "earlier = [] \<or> time_sleep poll = Inr ()"
        and n: "\<not> (waiting pid rep \<and> fsub now t0 \<le> real_of_int timeout \<and> time_sleep poll = Inr ())"
      for earlier rep now later
    proof -
      have eq: "fst (W obs) = fst (W ((rep, now) # later))"
        using goes_on[OF i s, of "(rep, now) # later"] d by simp
      from first_turn[OF n, of later]
      consider (e) e where "e \<noteq> TimeoutError" "fst (W ((rep, now) # later)) = Raised e"
        | (l) "waiting pid rep" "real_of_int timeout < fsub now t0"
            "fst (W ((rep, now) # later)) = Raised TimeoutError"
        | (r) dat where "dn rep dat" "fst (W ((rep, now) # later)) = Returned dat"
        by (elim disjE exE conjE)
      then show ?thesis
      proof cases
        case e
        with eq have "e \<noteq> TimeoutError \<and> fst (W obs) = Raised e" by simp
        then have ?err ..
        then show ?thesis by simp
      next
        case l
        with eq have "fst (W obs) = Raised TimeoutError" by simp
        with d i s l(1,2) have ?late by (intro exI conjI)
        then show ?thesis by simp
      next
        case r
        with eq have "fst (W obs) = Returned dat" by simp
        with d i s r(1) have ?ret by (intro exI conjI)
        then show ?thesis by simp
      qed
    qed
    show ?thesis
    proof (cases "time_sleep poll = Inr ()")
      case True
      from first_deciding_turn[of obs pid fsub t0 timeout]
      consider (all) "?intime obs"
        | (first) earlier rep now later where "obs = earlier @ (rep, now) # later" "?intime earlier"
            "\<not> (waiting pid rep \<and> fsub now t0 \<le> real_of_int timeout)"
        by (elim disjE exE conjE)
      then show ?thesis
      proof cases
        case all
        then have "W (obs @ []) = (fst (W []), concat (map (\<lambda>_. [HttpGet url, Sleep poll]) obs) @ snd (W []))"
          using True by (intro goes_on) simp_all
        then have "fst (W obs) = StillPolling" by (simp add: W_def)
        then show ?thesis by simp
      next
        case first
        from first(3) have "\<not> (waiting pid rep \<and> fsub now t0 \<le> real_of_int timeout \<and> time_sleep poll = Inr ())"
          by blast
        moreover have "earlier = [] \<or> time_sleep poll = Inr ()" using True by simp
        ultimately have "?err \<or> ?late \<or> ?ret" using first(1,2) by (intro from_first)
        then show ?thesis by simp
      qed
    next
      case False
      show ?thesis
      proof (cases obs)
        case Nil
        then have "fst (W obs) = StillPolling" by (simp add: W_def)
        then show ?thesis by simp
      next
        case (Cons ob later)
        obtain rep now where ob: "ob = (rep, now)" by (cases ob)
        have d0: "obs = [] @ (rep, now) # later" using Cons ob by simp
        have i0: "?intime []" by simp
        have s0: "([] :: (reply \<times> real) list) = [] \<or> time_sleep poll = Inr ()" by simp
        have n0: "\<not> (waiting pid rep \<and> fsub now t0 \<le> real_of_int timeout \<and> time_sleep poll = Inr ())"
          using False by simp
        have "?err \<or> ?late \<or> ?ret" using d0 i0 s0 n0 by (rule from_first)
        then show ?thesis by simp
      qed
    qed
  qed
  have only_if_returned: "\<exists>earlier rep now later r h d st flag.
         obs = earlier @ (rep, now) # later \<and> ?intime earlier \<and>
         (earlier = [] \<or> time_sleep poll = Inr ()) \<and>
         rep = Inr r \<and> \<not> (400 \<le> status_code r \<and> status_code r < 600) \<and>
         body_json r = Some (JObj h) \<and> map_of h pid = Some data \<and>
         data = JObj d \<and> map_of d ''status'' = Some (JObj st) \<and>
         map_of st ''completed'' = Some flag \<and> truthy flag"
    if "fst (W obs) = Returned data"
  proof -
    have "\<not> ?still" "\<not> ?err" "\<not> ?late" using that by simp_all
    with decided have ?ret by blast
    then obtain earlier rep now later dat where
      d: "obs = earlier @ (rep, now) # later" and i: "?intime earlier"
      and s: "earlier = [] \<or> time_sleep poll = Inr ()" and dd: "dn rep dat"
      and r: "fst (W obs) = Returned dat"
      by (elim exE conjE)
    from r that have same: "dat = data" by simp
    from dd obtain r h d' st flag where p: "rep = Inr r"
      "\<not> (400 \<le> status_code r \<and> status_code r < 600)"
      "body_json r = Some (JObj h)" "map_of h pid = Some dat"
      "dat = JObj d'" "map_of d' ''status'' = Some (JObj st)"
      "map_of st ''completed'' = Some flag" "truthy flag"
      unfolding dn_def by (elim exE conjE)
    note q = p[unfolded same]
    from d i s q show ?thesis by (intro exI conjI)
  qed
  have only_if_timeout: "\<exists>earlier rep now later.
         obs = earlier @ (rep, now) # later \<and> ?intime earlier \<and>
         (earlier = [] \<or> time_sleep poll = Inr ()) \<and>
         waiting pid rep \<and> real_of_int timeout < fsub now t0"
    if "fst (W obs) = Raised TimeoutError"
  proof -
    have "\<not> ?still" "\<not> ?err" "\<not> ?ret" using that by simp_all
    with decided have ?late by blast
    then obtain earlier rep now later where
      "obs = earlier @ (rep, now) # later" "?intime earlier"
      "earlier = [] \<or> time_sleep poll = Inr ()" "waiting pid rep" "real_of_int timeout < fsub now t0"
      by (elim exE conjE)
    then show ?thesis by (intro exI conjI)
  qed
  show ?thesis
    unfolding Wd url_def[symmetric]
  proof (intro conjI impI allI iffI)
    assume "fst (W obs) = Returned data"
    then show "\<exists>earlier rep now later r h d st flag.
         obs = earlier @ (rep, now) # later \<and> ?intime earlier \<and>
         (earlier = [] \<or> time_sleep poll = Inr ()) \<and>
         rep = Inr r \<and> \<not> (400 \<le> status_code r \<and> status_code r < 600) \<and>
         body_json r = Some (JObj h) \<and> map_of h pid = Some data \<and>
         data = JObj d \<and> map_of d ''status'' = Some (JObj st) \<and>
         map_of st ''completed'' = Some flag \<and> truthy flag"
      by (rule only_if_returned)
  next
    fix earlier rep now later r h d st flag
    assume "obs = earlier @ (rep, now) # later \<and> ?intime earlier \<and>
         (earlier = [] \<or> time_sleep poll = Inr ()) \<and>
         rep = Inr r \<and> \<not> (400 \<le> status_code r \<and> status_code r < 600) \<and>
         body_json r = Some (JObj h) \<and> map_of h pid = Some data \<and>
         data = JObj d \<and> map_of d ''status'' = Some (JObj st) \<and>
         map_of st ''completed'' = Some flag \<and> truthy flag"
    then show "W obs = (Returned data,
              concat (map (\<lambda>_. [HttpGet url, Sleep poll]) earlier) @ [HttpGet url])"
      by (elim conjE) (rule returns)
  next
    assume "fst (W obs) = Raised TimeoutError"
    then show "\<exists>earlier rep now later.
         obs = earlier @ (rep, now) # later \<and> ?intime earlier \<and>
         (earlier = [] \<or> time_sleep poll = Inr ()) \<and>
         waiting pid rep \<and> real_of_int timeout < fsub now t0"
      by (rule only_if_timeout)
  next
    assume "\<exists>earlier rep now later.
         obs = earlier @ (rep, now) # later \<and> ?intime earlier \<and>
         (earlier = [] \<or> time_sleep poll = Inr ()) \<and>
         waiting pid rep \<and> real_of_int timeout < fsub now t0"
    then show "fst (W obs) = Raised TimeoutError"
      by (elim exE conjE) (rule timeout_if)
  next
    fix earlier later
    assume "obs = earlier @ later \<and> ?intime earlier \<and> time_sleep poll = Inr ()"
    then show "W obs = (fst (W later),
              concat (map (\<lambda>_. [HttpGet url, Sleep poll]) earlier) @ snd (W later))"
      using goes_on by simp
  next
    fix rep :: reply and now later e
    assume "waiting pid rep \<and> fsub now t0 \<le> real_of_int timeout \<and> time_sleep poll = Inl e"
    then show "W ((rep, now) # later) = (Raised e, [HttpGet url])"
      unfolding W_def
      by (elim conjE) (rule turn_sleep_refused[where fsub = fsub and now = now and ?t0.0 = t0])
  next
    assume "time_sleep poll = Inr ()"
    then show "\<exists>x. poll = Finite x \<and> 0 \<le> x \<and> x * 10 ^ 9 < 2 ^ 63"
      by (simp only: time_sleep_accepts)
  next
    assume "\<exists>x. poll = Finite x \<and> 0 \<le> x \<and> x * 10 ^ 9 < 2 ^ 63"
    then show "time_sleep poll = Inr ()"
      by (simp only: time_sleep_accepts)
  next
    fix rep :: reply and r :: response and h
    assume a: "rep = Inr r \<and> \<not> (400 \<le> status_code r \<and> status_code r < 600) \<and>
         body_json r = Some (JObj h)"
    assume "waiting pid rep"
    then show "map_of h pid = None \<or>
             (\<exists>d. map_of h pid = Some (JObj d) \<and>
                (map_of d ''status'' = None \<or>
                 (\<exists>st. map_of d ''status'' = Some (JObj st) \<and>
                    (map_of st ''completed'' = None \<or>
                     (\<exists>flag. map_of st ''completed'' = Some flag \<and> \<not> truthy flag)))))"
      using a waiting_record[of rep r h pid] by simp
  next
    fix rep :: reply and r :: response and h
    assume a: "rep = Inr r \<and> \<not> (400 \<le> status_code r \<and> status_code r < 600) \<and>
         body_json r = Some (JObj h)"
    assume "map_of h pid = None \<or>
             (\<exists>d. map_of h pid = Some (JObj d) \<and>
                (map_of d ''status'' = None \<or>
                 (\<exists>st. map_of d ''status'' = Some (JObj st) \<and>
                    (map_of st ''completed'' = None \<or>
                     (\<exists>flag. map_of st ''completed'' = Some flag \<and> \<not> truthy flag)))))"
    then show "waiting pid rep"
      using a waiting_record[of rep r h pid] by simp
  qed
qed

theorem C2_poller_witness:
  "wait_until_done (-) ''abc'' ''http://localhost:8188/'' (Finite 2) 300 100
     [(Inr \<lparr>status_code = 200, body_json = Some (JObj []), content = [], stream_error = None\<rparr>, 101),
      (Inr \<lparr>status_code = 200, body_json = Some (JObj [(''abc'', JObj [(''status'',
          JObj [(''completed'', JBool False)])])]), content = [], stream_error = None\<rparr>, 103),
      (Inr \<lparr>status_code = 200, body_json = Some (JObj [(''abc'', JObj [(''status'',
          JObj [(''completed'', JBool True)]), (''outputs'', JObj [])])]), content = [],
          stream_error = None\<rparr>, 105)]
   = (Returned (JObj [(''status'', JObj [(''completed'', JBool True)]), (''outputs'', JObj [])]),
      [HttpGet ''http://localhost:8188/history/abc'', Sleep (Finite 2),
       HttpGet ''http://localhost:8188/history/abc'', Sleep (Finite 2),
       HttpGet ''http://localhost:8188/history/abc''])
   \<and> fst (wait_until_done (-) ''abc'' ''http://localhost:8188/'' (Finite 2) 300 100
     [(Inr \<lparr>status_code = 200, body_json = Some (JObj []), content = [], stream_error = None\<rparr>, 399),
      (Inr \<lparr>status_code = 200, body_json = Some (JObj []), content = [], stream_error = None\<rparr>, 401),
      (Inr \<lparr>status_code = 200, body_json = Some (JObj [(''abc'', JObj [(''status'',
          JObj [(''completed'', JBool True)])])]), content = [], stream_error = None\<rparr>, 403)])
     = Raised TimeoutError"
proof -
  let ?empty = "Inr \<lparr>status_code = 200, body_json = Some (JObj []), content = [],
          stream_error = None\<rparr> :: reply"
  let ?running = "Inr \<lparr>status_code = 200, body_json = Some (JObj [(''abc'', JObj [(''status'',
          JObj [(''completed'', JBool False)])])]), content = [], stream_error = None\<rparr> :: reply"
  let ?st = "[(''completed'', JBool True)]"
  let ?d = "[(''status'', JObj ?st), (''outputs'', JObj [])]"
  let ?r = "\<lparr>status_code = 200, body_json = Some (JObj [(''abc'', JObj ?d)]), content = [],
          stream_error = None\<rparr>"
  let ?late = "Inr \<lparr>status_code = 200, body_json = Some (JObj [(''abc'', JObj [(''status'',
          JObj [(''completed'', JBool True)])])]), content = [], stream_error = None\<rparr> :: reply"
  have sl: "time_sleep (Finite 2) = Inr ()" by (simp add: time_sleep_def)
  have w1: "waiting ''abc'' ?empty"
    by (simp add: waiting_def fetched_def received_def raise_for_status_def response_json_def
        bind_def job_absent_def)
  have w2: "waiting ''abc'' ?running"
    by (simp add: waiting_def fetched_def received_def raise_for_status_def response_json_def
        bind_def job_absent_def completed_flag_def)
  have url: "rstrip CHR ''/'' ''http://localhost:8188/'' @ ''/history/'' @ ''abc''
             = ''http://localhost:8188/history/abc''"
    by (simp add: rstrip_def)
  note returns = C2_poller[of "(-)" "''abc''" "''http://localhost:8188/''" "Finite 2" 300 100
      "[(?empty, 101), (?running, 103), (Inr ?r, 105)]" "JObj ?d",
      THEN conjunct2, THEN conjunct1, rule_format,
      of "[(?empty, 101), (?running, 103)]" "Inr ?r" 105 "[]" ?r "[(''abc'', JObj ?d)]" ?d ?st
        "JBool True"]
  have a: "wait_until_done (-) ''abc'' ''http://localhost:8188/'' (Finite 2) 300 100
      [(?empty, 101), (?running, 103), (Inr ?r, 105)]
    = (Returned (JObj ?d),
      [HttpGet ''http://localhost:8188/history/abc'', Sleep (Finite 2),
       HttpGet ''http://localhost:8188/history/abc'', Sleep (Finite 2),
       HttpGet ''http://localhost:8188/history/abc''])"
    using returns w1 w2 sl url by simp
  note times_out = C2_poller[of "(-)" "''abc''" "''http://localhost:8188/''" "Finite 2" 300 100
      "[(?empty, 399), (?empty, 401), (?late, 403)]" JNull,
      THEN conjunct2, THEN conjunct2, THEN conjunct1, THEN iffD2]
  have "\<exists>earlier rep now later.
         [(?empty, 399), (?empty, 401), (?late, 403)] = earlier @ (rep, now) # later \<and>
         (\<forall>(rep', now') \<in> set earlier. waiting ''abc'' rep' \<and> now' - 100 \<le> real_of_int 300) \<and>
         (earlier = [] \<or> time_sleep (Finite 2) = Inr ()) \<and>
         waiting ''abc'' rep \<and> real_of_int 300 < now - 100"
    by (rule exI[of _ "[(?empty, 399)]"], rule exI[of _ ?empty], rule exI[of _ 401],
        rule exI[of _ "[(?late, 403)]"]) (simp add: w1 sl)
  then have b: "fst (wait_until_done (-) ''abc'' ''http://localhost:8188/'' (Finite 2) 300 100
      [(?empty, 399), (?empty, 401), (?late, 403)]) = Raised TimeoutError"
    by (rule times_out)
  from a b show ?thesis by (intro conjI)
qed

end
